theory Spec2Isabelle
  imports Complex_Main "HOL-Library.Word"
begin

section \<open>Python values and exceptions\<close>

text \<open>
  The values a target column can hold. \<open>BinaryTarget\<close> declares its two fields without
  a type, so any Python object is accepted; the model covers integers, booleans, strings
  and \<open>None\<close>, values for which \<open>==\<close> gives a plain boolean.
  Everything below about the binary target is about these values only. Left out are
  floating-point values (\<open>nan\<close> is not equal to itself), values whose \<open>==\<close> has no truth
  value (\<open>pandas.NA\<close> and arrays: the \<open>if\<close> of line 25 raises for them before any
  result or \<open>UnknownTargetError\<close>), and integers too long for \<open>str\<close> to print (CPython
  refuses more than 4300 digits unless told otherwise).
\<close>

datatype pyval = PyInt int | PyBool bool | PyStr string | PyNone

text \<open>
  Python's \<open>==\<close> on these values: a boolean is an integer (\<open>True == 1\<close>,
  \<open>False == 0\<close>); values of unrelated types are unequal.
\<close>

fun py_eq :: "pyval \<Rightarrow> pyval \<Rightarrow> bool" where
  "py_eq (PyInt i) (PyInt j) = (i = j)"
| "py_eq (PyInt i) (PyBool b) = (i = (if b then 1 else 0))"
| "py_eq (PyBool b) (PyInt i) = (i = (if b then 1 else 0))"
| "py_eq (PyBool a) (PyBool b) = (a = b)"
| "py_eq (PyStr s) (PyStr t) = (s = t)"
| "py_eq PyNone PyNone = True"
| "py_eq _ _ = False"

text \<open>The decimal digits of an integer that is not negative, as \<open>str\<close> prints them.\<close>

definition digit_char :: "nat \<Rightarrow> char" where
  "digit_char d = (''0123456789abcdef'' ! d)"

function dec_digits :: "int \<Rightarrow> string" where
  "dec_digits n =
     (if n < 10 then [digit_char (nat n)]
      else dec_digits (n div 10) @ [digit_char (nat (n mod 10))])"
  by pat_completeness auto
termination
  by (relation "measure nat") auto

declare dec_digits.simps [simp del]

text \<open>\<open>str(v)\<close>, which an f-string applies to each interpolated value.\<close>

fun py_str :: "pyval \<Rightarrow> string" where
  "py_str (PyInt i) = (if i < 0 then CHR ''-'' # dec_digits (- i) else dec_digits i)"
| "py_str (PyBool b) = (if b then ''True'' else ''False'')"
| "py_str (PyStr s) = s"
| "py_str PyNone = ''None''"

text \<open>
  Raw values of the search space (a cell of the experimental representation): a label
  or a number. Numbers are exact rationals.
\<close>

datatype cell = Str string | Num rat

text \<open>A pandas \<open>Series\<close>: index labels with their values, in order.\<close>

type_synonym Series = "(string \<times> cell) list"

text \<open>
  The exceptions of the code (\<open>UnknownTargetError\<close>, \<open>AssertionError\<close>,
  \<open>AttributeError\<close>, \<open>KeyError\<close>, \<open>TypeError\<close>, \<open>ValueError\<close>) and the failures the specification
  names (\<open>DomainError\<close>, \<open>ConfigurationError\<close>, \<open>ConstraintEvaluationError\<close>,
  \<open>EmptySearchSpaceError\<close>, \<open>AmbiguousToleranceMatchError\<close>, \<open>NoMatchError\<close>).
\<close>

datatype error =
    UnknownTargetError string
  | AssertionError
  | AttributeError string
  | KeyError string
  | TypeError
  | ValueError string
  | DomainError string cell
  | ConfigurationError string
  | ConstraintEvaluationError nat Series
  | EmptySearchSpaceError
  | AmbiguousToleranceMatchError rat "rat list"
  | NoMatchError rat

section \<open>baybe/targets/binary.py\<close>

text \<open>
  \<open>BinaryTarget\<close>: the attrs class with the fields \<open>positive_value\<close> (default 1) and
  \<open>negative_value\<close> (default 0), and \<open>name\<close> from the base class \<open>Target\<close>. The class
  declares no validator, so every pair of values constructs.
\<close>

record BinaryTarget =
  name :: string
  positive_value :: pyval
  negative_value :: pyval

definition BinaryTarget_init :: "string \<Rightarrow> pyval option \<Rightarrow> pyval option \<Rightarrow> BinaryTarget" where
  "BinaryTarget_init n pv nv =
     \<lparr>name = n,
      positive_value = (case pv of None \<Rightarrow> PyInt 1 | Some v \<Rightarrow> v),
      negative_value = (case nv of None \<Rightarrow> PyInt 0 | Some v \<Rightarrow> v)\<rparr>"

text \<open>The message of the \<open>UnknownTargetError\<close> (the f-string of lines 30 and 31).\<close>

definition unknown_target_message :: "BinaryTarget \<Rightarrow> pyval \<Rightarrow> string" where
  "unknown_target_message t v =
     ''The entered target '' @ [CHR 39] @ py_str v @ [CHR 39] @ '' is not in the''
     @ '' target set of {'' @ py_str (positive_value t) @ '', '' @ py_str (negative_value t) @ ''}''"

definition transform_to_binary :: "BinaryTarget \<Rightarrow> pyval \<Rightarrow> error + int" where
  "transform_to_binary t experimental_representation =
     (if py_eq experimental_representation (positive_value t) then Inr 1
      else if py_eq experimental_representation (negative_value t) then Inr 0
      else Inl (UnknownTargetError (unknown_target_message t experimental_representation)))"

text \<open>
  A \<open>DataFrame\<close> as its columns in order, each a label with its values. Data frames are
  objects: a variable holds a reference, and the store maps each reference to the frame it
  denotes, so that two variables can name the same frame.
\<close>

type_synonym DataFrame = "(string \<times> pyval list) list"
type_synonym ref = nat
type_synonym store = "ref \<Rightarrow> DataFrame"

text \<open>
  \<open>Series.apply(f)\<close>: \<open>f\<close> on each element from the first to the last; the first
  exception ends the call.
\<close>

fun apply_series :: "('a \<Rightarrow> error + 'b) \<Rightarrow> 'a list \<Rightarrow> error + 'b list" where
  "apply_series f [] = Inr []"
| "apply_series f (x # xs) =
     (case f x of
        Inl e \<Rightarrow> Inl e
      | Inr y \<Rightarrow> (case apply_series f xs of Inl e \<Rightarrow> Inl e | Inr ys \<Rightarrow> Inr (y # ys)))"

text \<open>
  \<open>BinaryTarget.transform\<close>: the assertion on \<open>data.shape[1]\<close>, then the assignment to
  the only column of the frame that \<open>data\<close> refers to, then \<open>return data\<close>. An exception
  leaves the store as it was: the new column is computed before it is assigned.
\<close>

definition transform :: "BinaryTarget \<Rightarrow> ref \<Rightarrow> store \<Rightarrow> error + (ref \<times> store)" where
  "transform t data s =
     (case s data of
        [(col, xs)] \<Rightarrow>
          (case apply_series (transform_to_binary t) xs of
             Inl e \<Rightarrow> Inl e
           | Inr ys \<Rightarrow> Inr (data, s(data := [(col, map PyInt ys)])))
      | _ \<Rightarrow> Inl AssertionError)"

text \<open>\<open>BinaryTarget.summary\<close>: the dictionary, as its items in order.\<close>

definition summary :: "BinaryTarget \<Rightarrow> (string \<times> pyval) list" where
  "summary t =
     [(''Type'', PyStr ''BinaryTarget''), (''Name'', PyStr (name t)),
      (''Positive_value'', positive_value t), (''Negative_value'', negative_value t)]"

section \<open>benchmarks/result/result.py\<close>

text \<open>
  A \<open>uuid.UUID\<close> holds an integer \<open>0 \<le> int < 2 ** 128\<close>, and two UUIDs are equal when
  their integers are: a 128-bit word. Strings are sequences of code points below 256.
\<close>

type_synonym UUID = "128 word"

text \<open>
  \<open>'%032x' % n\<close>: the sign of a negative number, then its lower-case hexadecimal digits
  padded with zeros to a width of 32 in all.
\<close>

function hex_digits :: "int \<Rightarrow> string" where
  "hex_digits n =
     (if n < 16 then [digit_char (nat n)]
      else hex_digits (n div 16) @ [digit_char (nat (n mod 16))])"
  by pat_completeness auto
termination
  by (relation "measure nat") auto

declare hex_digits.simps [simp del]

definition zero_pad :: "nat \<Rightarrow> string \<Rightarrow> string" where
  "zero_pad w s = replicate (w - length s) (CHR ''0'') @ s"

definition format_032x :: "int \<Rightarrow> string" where
  "format_032x n =
     (if n < 0 then CHR ''-'' # zero_pad 31 (hex_digits (- n)) else zero_pad 32 (hex_digits n))"

text \<open>A slice \<open>s[a:b]\<close> with \<open>0 \<le> a \<le> b\<close>, and \<open>s[a:]\<close>.\<close>

definition slice :: "nat \<Rightarrow> nat \<Rightarrow> 'a list \<Rightarrow> 'a list" where
  "slice a b s = take (b - a) (drop a s)"

text \<open>\<open>UUID.__str__\<close>: the 32 digits in groups of 8, 4, 4, 4 and 12.\<close>

definition UUID_str :: "UUID \<Rightarrow> string" where
  "UUID_str u =
     (let hex = format_032x (uint u)
      in slice 0 8 hex @ ''-'' @ slice 8 12 hex @ ''-'' @ slice 12 16 hex @ ''-''
         @ slice 16 20 hex @ ''-'' @ drop 20 hex)"

text \<open>
  \<open>s.replace(old, '')\<close>: the occurrences of \<open>old\<close> removed from the left, without
  overlap; an empty \<open>old\<close> leaves \<open>s\<close> as it is.
\<close>

function str_remove :: "string \<Rightarrow> string \<Rightarrow> string" where
  "str_remove old [] = []"
| "str_remove old (c # s) =
     (if old = [] then c # s
      else if take (length old) (c # s) = old then str_remove old (drop (length old) (c # s))
      else c # str_remove old s)"
  by pat_completeness auto
termination
proof (relation "measure (\<lambda>(old, s). length s)")
  show "wf (measure (\<lambda>(old, s). length s))" by simp
next
  fix old :: string and c s
  assume "old \<noteq> []"
  then have "0 < length old" by simp
  then show "((old, drop (length old) (c # s)), (old, c # s)) \<in> measure (\<lambda>(old, s). length s)"
    by simp
next
  fix old :: string and c s
  show "((old, s), (old, c # s)) \<in> measure (\<lambda>(old, s). length s)"
    by simp
qed

declare str_remove.simps [simp del]

text \<open>\<open>s.strip(chars)\<close>: the characters of \<open>chars\<close> dropped at both ends.\<close>

definition str_strip :: "(char \<Rightarrow> bool) \<Rightarrow> string \<Rightarrow> string" where
  "str_strip P s = rev (dropWhile P (rev (dropWhile P s)))"

text \<open>
  White space as \<open>int()\<close> strips it from a string: the ASCII white space (code points 9
  to 13 and 32) and, of the code points above 127, the two that are Unicode white space
  (133 and 160), which \<open>int()\<close> turns into blanks first. The separators 28 to 31 are left
  as they are and make the literal invalid.
\<close>

definition is_space :: "char \<Rightarrow> bool" where
  "is_space c =
     (let k = (of_char c :: nat)
      in (9 \<le> k \<and> k \<le> 13) \<or> k = 32 \<or> k = 133 \<or> k = 160)"

text \<open>The value of a hexadecimal digit of either case.\<close>

definition hexval :: "char \<Rightarrow> nat option" where
  "hexval c =
     (let k = (of_char c :: nat)
      in if 48 \<le> k \<and> k \<le> 57 then Some (k - 48)
         else if 97 \<le> k \<and> k \<le> 102 then Some (k - 87)
         else if 65 \<le> k \<and> k \<le> 70 then Some (k - 55)
         else None)"

text \<open>
  The digits of an integer literal: a digit, then digits each with at most one
  underscore before it.
\<close>

fun literal_digits :: "string \<Rightarrow> nat list option" where
  "literal_digits [] = None"
| "literal_digits [c] = map_option (\<lambda>d. [d]) (hexval c)"
| "literal_digits (c # u # r) =
     (case hexval c of
        None \<Rightarrow> None
      | Some d \<Rightarrow>
          map_option (Cons d) (if u = CHR ''_'' then literal_digits r else literal_digits (u # r)))"

definition digits_value :: "nat list \<Rightarrow> int" where
  "digits_value ds = foldl (\<lambda>a d. 16 * a + int d) 0 ds"

text \<open>
  \<open>int(s, 16)\<close>: white space stripped, an optional sign, an optional \<open>0x\<close> or \<open>0X\<close>
  (which one underscore may follow), then the digits; anything else is a \<open>ValueError\<close>.
\<close>

definition int16 :: "string \<Rightarrow> error + int" where
  "int16 s =
     (let t = str_strip is_space s;
          neg = (t \<noteq> [] \<and> hd t = CHR ''-'');
          t1 = (if t \<noteq> [] \<and> (hd t = CHR ''-'' \<or> hd t = CHR ''+'') then tl t else t);
          t2 = (if take 2 t1 = ''0x'' \<or> take 2 t1 = ''0X''
                then (if take 1 (drop 2 t1) = ''_'' then drop 3 t1 else drop 2 t1)
                else t1)
      in case literal_digits t2 of
           None \<Rightarrow> Inl (ValueError ''invalid literal for int() with base 16'')
         | Some ds \<Rightarrow> Inr (if neg then - digits_value ds else digits_value ds))"

text \<open>\<open>UUID(hex)\<close>, the constructor called with a string.\<close>

definition UUID_init :: "string \<Rightarrow> error + UUID" where
  "UUID_init hex =
     (let hex1 = str_remove ''uuid:'' (str_remove ''urn:'' hex);
          hex2 = str_remove ''-'' (str_strip (\<lambda>c. c = CHR ''{'' \<or> c = CHR ''}'') hex1)
      in if length hex2 \<noteq> 32 then Inl (ValueError ''badly formed hexadecimal UUID string'')
         else (case int16 hex2 of
                 Inl e \<Rightarrow> Inl e
               | Inr i \<Rightarrow>
                   if 0 \<le> i \<and> i < 2 ^ 128 then Inr (word_of_int i)
                   else Inl (ValueError ''int is out of range (need a 128-bit value)'')))"

text \<open>
  The hooks registered on the converter for \<open>UUID\<close> (lines 35 and 36): \<open>lambda x: str(x)\<close>
  and \<open>lambda x, _: UUID(x)\<close>, whose second argument is the target class.
\<close>

definition unstructure_hook :: "UUID \<Rightarrow> string" where
  "unstructure_hook x = UUID_str x"

definition structure_hook :: "string \<Rightarrow> 'cl \<Rightarrow> error + UUID" where
  "structure_hook x cl = UUID_init x"

text \<open>The lower-case hexadecimal digits, the characters \<open>'%x'\<close> prints.\<close>

definition lower_hex :: "char set" where
  "lower_hex = set ''0123456789abcdef''"

section \<open>baybe/examples/Constraints_Discrete/custom_constraints.py\<close>

text \<open>
  What the validator does with the \<open>Series\<close> it is given: it reads a value by its label
  (\<open>ser.Solvent\<close>; an \<open>AttributeError\<close> when the label is absent), and compares it with
  a string by \<open>==\<close> or with a number by \<open>>\<close> or \<open><\<close> (a \<open>TypeError\<close> when the value is
  a string). The labels of a series are taken to be distinct, as the names of the
  parameters of a space are: for a repeated label pandas gives all its values, not one,
  and the model, which reads the first, does not follow it there.
\<close>

definition getattr_series :: "Series \<Rightarrow> string \<Rightarrow> error + cell" where
  "getattr_series ser label =
     (case map_of ser label of None \<Rightarrow> Inl (AttributeError label) | Some v \<Rightarrow> Inr v)"

fun eq_str :: "cell \<Rightarrow> string \<Rightarrow> bool" where
  "eq_str (Str s) t = (s = t)"
| "eq_str (Num a) t = False"

fun gt_num :: "cell \<Rightarrow> rat \<Rightarrow> error + bool" where
  "gt_num (Num a) k = Inr (a > k)"
| "gt_num (Str s) k = Inl TypeError"

fun lt_num :: "cell \<Rightarrow> rat \<Rightarrow> error + bool" where
  "lt_num (Num a) k = Inr (a < k)"
| "lt_num (Str s) k = Inl TypeError"

definition attr_eq :: "Series \<Rightarrow> string \<Rightarrow> string \<Rightarrow> error + bool" where
  "attr_eq ser label t =
     (case getattr_series ser label of Inl e \<Rightarrow> Inl e | Inr v \<Rightarrow> Inr (eq_str v t))"

definition attr_gt :: "Series \<Rightarrow> string \<Rightarrow> rat \<Rightarrow> error + bool" where
  "attr_gt ser label k =
     (case getattr_series ser label of Inl e \<Rightarrow> Inl e | Inr v \<Rightarrow> gt_num v k)"

definition attr_lt :: "Series \<Rightarrow> string \<Rightarrow> rat \<Rightarrow> error + bool" where
  "attr_lt ser label k =
     (case getattr_series ser label of Inl e \<Rightarrow> Inl e | Inr v \<Rightarrow> lt_num v k)"

text \<open>\<open>x and y\<close>: \<open>y\<close> is evaluated only when \<open>x\<close> is true.\<close>

definition py_and :: "error + bool \<Rightarrow> error + bool \<Rightarrow> error + bool" where
  "py_and x y = (case x of Inl e \<Rightarrow> Inl e | Inr b \<Rightarrow> if b then y else Inr False)"

text \<open>
  \<open>custom_function\<close> (lines 44 to 60). Each \<open>if\<close> of the source is one \<open>case\<close>: an
  exception ends the call, a true condition returns \<open>False\<close>, a false one goes on.
\<close>

definition custom_function :: "Series \<Rightarrow> error + bool" where
  "custom_function ser =
     (case attr_eq ser ''Solvent'' ''water'' of
        Inl e \<Rightarrow> Inl e
      | Inr is_water \<Rightarrow>
         (case (if is_water
                then py_and (attr_gt ser ''Temperature'' 120) (attr_gt ser ''Concentration'' 5)
                else Inr False) of
            Inl e \<Rightarrow> Inl e
          | Inr True \<Rightarrow> Inr False
          | Inr False \<Rightarrow>
             (case (if is_water
                    then py_and (attr_gt ser ''Temperature'' 180) (attr_gt ser ''Concentration'' 3)
                    else Inr False) of
                Inl e \<Rightarrow> Inl e
              | Inr True \<Rightarrow> Inr False
              | Inr False \<Rightarrow>
                 (case attr_eq ser ''Solvent'' ''C3'' of
                    Inl e \<Rightarrow> Inl e
                  | Inr is_c3 \<Rightarrow>
                     (case (if is_c3
                            then py_and (attr_lt ser ''Temperature'' 150)
                                   (attr_gt ser ''Concentration'' 3)
                            else Inr False) of
                        Inl e \<Rightarrow> Inl e
                      | Inr True \<Rightarrow> Inr False
                      | Inr False \<Rightarrow> Inr True)))))"

text \<open>
  The three combinations of solvent, temperature and concentration that the validator
  rejects.
\<close>

definition forbidden :: "string \<Rightarrow> rat \<Rightarrow> rat \<Rightarrow> bool" where
  "forbidden s t c =
     ((s = ''water'' \<and> t > 120 \<and> c > 5) \<or> (s = ''water'' \<and> t > 180 \<and> c > 3)
      \<or> (s = ''C3'' \<and> t < 150 \<and> c > 3))"

text \<open>
  The three numbers the loop prints (lines 89 to 124), each the count of the rows of
  \<open>exp_rep\<close> in which three conditions hold together. A column is read by its label
  (\<open>exp_rep["Concentration"]\<close>; a \<open>KeyError\<close> when the table has no such column) and
  compared value by value; the conditions are combined with \<open>&\<close>, which has no short
  cut: all three are evaluated for every row. The table is read row by row here, which
  gives the same counts; when several cells raise, the exception of the first such row
  is the result, where pandas, working column by column, meets the first such column
  first.
\<close>

definition getitem :: "Series \<Rightarrow> string \<Rightarrow> error + cell" where
  "getitem row label =
     (case map_of row label of None \<Rightarrow> Inl (KeyError label) | Some v \<Rightarrow> Inr v)"

definition col_eq :: "Series \<Rightarrow> string \<Rightarrow> string \<Rightarrow> error + bool" where
  "col_eq row label t =
     (case getitem row label of Inl e \<Rightarrow> Inl e | Inr v \<Rightarrow> Inr (eq_str v t))"

definition col_gt :: "Series \<Rightarrow> string \<Rightarrow> rat \<Rightarrow> error + bool" where
  "col_gt row label k =
     (case getitem row label of Inl e \<Rightarrow> Inl e | Inr v \<Rightarrow> gt_num v k)"

definition col_lt :: "Series \<Rightarrow> string \<Rightarrow> rat \<Rightarrow> error + bool" where
  "col_lt row label k =
     (case getitem row label of Inl e \<Rightarrow> Inl e | Inr v \<Rightarrow> lt_num v k)"

definition and3 :: "error + bool \<Rightarrow> error + bool \<Rightarrow> error + bool \<Rightarrow> error + bool" where
  "and3 x y z =
     (case x of
        Inl e \<Rightarrow> Inl e
      | Inr a \<Rightarrow>
         (case y of
            Inl e \<Rightarrow> Inl e
          | Inr b \<Rightarrow> (case z of Inl e \<Rightarrow> Inl e | Inr c \<Rightarrow> Inr (a \<and> b \<and> c))))"

fun count_rows :: "(Series \<Rightarrow> error + bool) \<Rightarrow> Series list \<Rightarrow> error + nat" where
  "count_rows f [] = Inr 0"
| "count_rows f (r # rs) =
     (case f r of
        Inl e \<Rightarrow> Inl e
      | Inr b \<Rightarrow>
         (case count_rows f rs of
            Inl e \<Rightarrow> Inl e
          | Inr n \<Rightarrow> Inr (if b then Suc n else n)))"

definition water_above_120_and_5 :: "Series \<Rightarrow> error + bool" where
  "water_above_120_and_5 r =
     and3 (col_gt r ''Concentration'' 5) (col_gt r ''Temperature'' 120)
          (col_eq r ''Solvent'' ''water'')"

definition water_above_180_and_3 :: "Series \<Rightarrow> error + bool" where
  "water_above_180_and_3 r =
     and3 (col_gt r ''Concentration'' 3) (col_gt r ''Temperature'' 180)
          (col_eq r ''Solvent'' ''water'')"

definition c3_below_150_and_above_3 :: "Series \<Rightarrow> error + bool" where
  "c3_below_150_and_above_3 r =
     and3 (col_gt r ''Concentration'' 3) (col_lt r ''Temperature'' 150)
          (col_eq r ''Solvent'' ''C3'')"

definition asserts :: "Series list \<Rightarrow> error + (nat \<times> nat \<times> nat)" where
  "asserts exp_rep =
     (case count_rows water_above_120_and_5 exp_rep of
        Inl e \<Rightarrow> Inl e
      | Inr n1 \<Rightarrow>
         (case count_rows water_above_180_and_3 exp_rep of
            Inl e \<Rightarrow> Inl e
          | Inr n2 \<Rightarrow>
             (case count_rows c3_below_150_and_above_3 exp_rep of
                Inl e \<Rightarrow> Inl e
              | Inr n3 \<Rightarrow> Inr (n1, n2, n3))))"

text \<open>
  The values the example declares (lines 19 to 38): the keys of \<open>dict_solvent\<close>, the five
  speeds, \<open>np.linspace(100, 200, 10)\<close> (ten levels \<open>100 + 100 k / 9\<close>, none of them within
  rounding of a threshold of the validator), and the four concentrations.
\<close>

definition dict_solvent :: "(string \<times> string) list" where
  "dict_solvent =
     [(''water'', ''O''), (''C1'', ''C''), (''C2'', ''CC''), (''C3'', ''CCC''),
      (''C4'', ''CCCC''), (''C5'', ''CCCCC''), (''c6'', ''c1ccccc1''), (''C6'', ''CCCCCC'')]"

definition speed_values :: "cell list" where
  "speed_values = [Str ''very slow'', Str ''slow'', Str ''normal'', Str ''fast'', Str ''very fast'']"

definition linspace :: "rat \<Rightarrow> rat \<Rightarrow> nat \<Rightarrow> rat list" where
  "linspace lo hi n = map (\<lambda>k. lo + of_nat k * (hi - lo) / of_nat (n - 1)) [0..<n]"

definition temperature_values :: "cell list" where
  "temperature_values = map Num (linspace 100 200 10)"

definition concentration_values :: "cell list" where
  "concentration_values = [Num 1, Num 2, Num 5, Num 10]"

section \<open>The search space of the specification\<close>

text \<open>
  Modelled from the spec: the parameter classes, \<open>CustomConstraint\<close>,
  \<open>SearchSpace.create\<close>, \<open>recommend\<close> and \<open>add_measurements\<close> are imported by the
  example and are not among the source files. What follows is the specification's data
  model (section 3) and its discrete subspace builder (section 4.3).

  A parameter has a name, its ordered domain, a tolerance when it is numeric-discrete,
  and the rule that encodes a domain value as numeric columns.
\<close>

record parameter =
  param_name :: string
  param_values :: "cell list"
  param_tolerance :: "rat option"
  param_encoding :: "cell \<Rightarrow> rat list"

text \<open>
  Modelled from the spec (section 4.1): the encoding is computed once for each declared
  value and looked up from then on; a value outside the declared domain is a
  \<open>DomainError\<close>.
\<close>

definition encoding_table :: "parameter \<Rightarrow> (cell \<times> rat list) list" where
  "encoding_table p = map (\<lambda>v. (v, param_encoding p v)) (param_values p)"

definition encode :: "parameter \<Rightarrow> cell \<Rightarrow> error + rat list" where
  "encode p v =
     (case map_of (encoding_table p) v of
        None \<Rightarrow> Inl (DomainError (param_name p) v)
      | Some vec \<Rightarrow> Inr vec)"

text \<open>
  Modelled from the spec (section 4.2): a custom constraint is the declared list of
  parameter names and the validator, a function of the series of the values of these
  names; \<open>CustomConstraint.create\<close> makes one from the two entries of its
  configuration.
\<close>

record CustomConstraint =
  parameters :: "string list"
  validator :: "Series \<Rightarrow> error + bool"

definition CustomConstraint_create :: "string list \<Rightarrow> (Series \<Rightarrow> error + bool) \<Rightarrow> CustomConstraint" where
  "CustomConstraint_create declared v = \<lparr>parameters = declared, validator = v\<rparr>"

text \<open>
  Modelled from the spec: the values handed to the validator are those of the declared
  names, each found in the row by its name; a declared name that the row lacks is a
  configuration error.
\<close>

fun bind_row :: "string list \<Rightarrow> Series \<Rightarrow> error + Series" where
  "bind_row [] row = Inr []"
| "bind_row (n # ns) row =
     (case map_of row n of
        None \<Rightarrow> Inl (ConfigurationError n)
      | Some v \<Rightarrow> (case bind_row ns row of Inl e \<Rightarrow> Inl e | Inr ser \<Rightarrow> Inr ((n, v) # ser)))"

text \<open>
  Modelled from the spec: \<open>is_valid\<close>; a validator that raises propagates as a
  \<open>ConstraintEvaluationError\<close> that names the constraint (by its position) and the row.
\<close>

definition is_valid :: "nat \<Rightarrow> CustomConstraint \<Rightarrow> Series \<Rightarrow> error + bool" where
  "is_valid i c row =
     (case bind_row (parameters c) row of
        Inl e \<Rightarrow> Inl e
      | Inr ser \<Rightarrow>
         (case validator c ser of
            Inl e \<Rightarrow> Inl (ConstraintEvaluationError i row)
          | Inr b \<Rightarrow> Inr b))"

text \<open>
  Modelled from the spec (section 4.2): the constraints of a list are applied in order,
  until one fails or rejects the row.
\<close>

fun check :: "(nat \<times> CustomConstraint) list \<Rightarrow> Series \<Rightarrow> error + bool" where
  "check [] row = Inr True"
| "check ((i, c) # cs) row =
     (case is_valid i c row of
        Inl e \<Rightarrow> Inl e
      | Inr b \<Rightarrow> if b then check cs row else Inr False)"

text \<open>
  Modelled from the spec (section 4.3, step 2a): a constraint is applied as soon as all
  the parameters it depends on have a value, that is on the first partial row that holds
  all its declared names.
\<close>

definition ready :: "CustomConstraint \<Rightarrow> Series \<Rightarrow> bool" where
  "ready c row = (set (parameters c) \<subseteq> set (map fst row))"

definition newly_ready :: "(nat \<times> CustomConstraint) list \<Rightarrow> Series \<Rightarrow> Series \<Rightarrow> (nat \<times> CustomConstraint) list" where
  "newly_ready cs before row = filter (\<lambda>(i, c). ready c row \<and> \<not> ready c before) cs"

text \<open>
  Modelled from the spec (section 8, constraint soundness): a row satisfies the
  constraints when every constraint whose declared names the row holds accepts it.
\<close>

definition all_valid :: "(nat \<times> CustomConstraint) list \<Rightarrow> Series \<Rightarrow> bool" where
  "all_valid cs row = (\<forall>(i, c) \<in> set cs. ready c row \<longrightarrow> is_valid i c row = Inr True)"

text \<open>
  Modelled from the spec (step 4): the rows of the branches in the order of generation;
  the first failure ends the generation.
\<close>

fun collect :: "(error + 'a list) list \<Rightarrow> error + 'a list" where
  "collect [] = Inr []"
| "collect (x # xs) =
     (case x of
        Inl e \<Rightarrow> Inl e
      | Inr rows \<Rightarrow> (case collect xs of Inl e \<Rightarrow> Inl e | Inr rest \<Rightarrow> Inr (rows @ rest)))"

text \<open>
  Modelled from the spec (section 4.3, steps 1, 2a and 4): the Cartesian product,
  generated depth first in the order of the parameters and of their values, a branch
  being cut when a constraint that has become ready rejects the partial row.
\<close>

fun product_rows :: "parameter list \<Rightarrow> (nat \<times> CustomConstraint) list \<Rightarrow> Series \<Rightarrow> error + Series list" where
  "product_rows [] cs row = Inr [row]"
| "product_rows (p # ps) cs row =
     collect
       (map (\<lambda>v. case check (newly_ready cs row (row @ [(param_name p, v)]))
                         (row @ [(param_name p, v)]) of
                    Inl e \<Rightarrow> Inl e
                  | Inr ok \<Rightarrow>
                      if ok then product_rows ps cs (row @ [(param_name p, v)]) else Inr [])
            (param_values p))"

text \<open>
  Modelled from the spec (step 3): duplicates are dropped, the first occurrence of a
  row being the one that stays.
\<close>

fun dedup :: "'a list \<Rightarrow> 'a list \<Rightarrow> 'a list" where
  "dedup seen [] = []"
| "dedup seen (x # xs) = (if x \<in> set seen then dedup seen xs else x # dedup (x # seen) xs)"

text \<open>
  Modelled from the spec (step 5): a row is encoded parameter by parameter, and the
  encoded columns are concatenated in the order the parameters were declared.
\<close>

fun encode_row :: "parameter list \<Rightarrow> Series \<Rightarrow> error + rat list" where
  "encode_row [] row = Inr []"
| "encode_row (p # ps) row =
     (case map_of row (param_name p) of
        None \<Rightarrow> Inl (ConfigurationError (param_name p))
      | Some v \<Rightarrow>
         (case encode p v of
            Inl e \<Rightarrow> Inl e
          | Inr vec \<Rightarrow>
             (case encode_row ps row of Inl e \<Rightarrow> Inl e | Inr rest \<Rightarrow> Inr (vec @ rest))))"

text \<open>
  Modelled from the spec (section 3): the discrete subspace holds the two
  representations; the search space holds the subspace and the rows already measured
  and already recommended (a row stands for its identifier).
\<close>

record SubspaceDiscrete =
  exp_rep :: "Series list"
  comp_rep :: "rat list list"

record SearchSpace =
  discrete :: SubspaceDiscrete
  measured :: "Series list"
  recommended :: "Series list"

text \<open>
  Modelled from the spec: \<open>SearchSpace.create\<close>. The shape of the configuration is
  checked first (names unique, every name a constraint declares a parameter of the
  space); then the constraints that depend on no parameter are applied, the rows are
  generated and filtered, deduplicated unless duplicates are
  allowed, and encoded.
\<close>

definition SearchSpace_create :: "parameter list \<Rightarrow> CustomConstraint list \<Rightarrow> bool \<Rightarrow> error + SearchSpace" where
  "SearchSpace_create ps constraints allow_duplicates =
     (let names = map param_name ps;
          cs = zip [0..<length constraints] constraints
      in if \<not> distinct names then Inl (ConfigurationError ''duplicate parameter name'')
         else
           (case filter (\<lambda>n. n \<notin> set names) (concat (map parameters constraints)) of
              n # _ \<Rightarrow> Inl (ConfigurationError n)
            | [] \<Rightarrow>
               (case check (filter (\<lambda>(i, c). ready c []) cs) [] of
                  Inl e \<Rightarrow> Inl e
                | Inr ok \<Rightarrow>
                   (case (if ok then product_rows ps cs [] else Inr []) of
                      Inl e \<Rightarrow> Inl e
                    | Inr rows \<Rightarrow>
                       (let kept = (if allow_duplicates then rows else dedup [] rows)
                        in case apply_series (encode_row ps) kept of
                             Inl e \<Rightarrow> Inl e
                           | Inr encoded \<Rightarrow>
                               Inr \<lparr>discrete = \<lparr>exp_rep = kept, comp_rep = encoded\<rparr>,
                                    measured = [], recommended = []\<rparr>)))))"

text \<open>
  Modelled from the spec (section 4.4): the candidates are the rows not yet recommended
  and not yet measured, as the two flags ask; an empty result is an
  \<open>EmptySearchSpaceError\<close>. Marking rows adds the new ones to a list of identifiers and
  leaves the two tables alone.
\<close>

definition get_candidates :: "bool \<Rightarrow> bool \<Rightarrow> SearchSpace \<Rightarrow> error + (Series \<times> rat list) list" where
  "get_candidates allow_repeated_recommendations allow_recommending_already_measured sp =
     (let candidates =
            filter (\<lambda>(row, x).
                      (allow_repeated_recommendations \<or> row \<notin> set (recommended sp))
                      \<and> (allow_recommending_already_measured \<or> row \<notin> set (measured sp)))
                   (zip (exp_rep (discrete sp)) (comp_rep (discrete sp)))
      in if candidates = [] then Inl EmptySearchSpaceError else Inr candidates)"

definition mark_measured :: "Series list \<Rightarrow> SearchSpace \<Rightarrow> SearchSpace" where
  "mark_measured rows sp = sp\<lparr>measured := measured sp @ dedup (measured sp) rows\<rparr>"

definition mark_recommended :: "Series list \<Rightarrow> SearchSpace \<Rightarrow> SearchSpace" where
  "mark_recommended rows sp = sp\<lparr>recommended := recommended sp @ dedup (recommended sp) rows\<rparr>"

text \<open>
  Modelled from the spec (section 6): the recommender is an external collaborator that
  selects rows among the candidates; \<open>recommend\<close> takes a batch of them and marks it as
  recommended, \<open>add_measurements\<close> marks the measured rows.
\<close>

type_synonym recommender = "(Series \<times> rat list) list \<Rightarrow> Series list"

definition recommend :: "recommender \<Rightarrow> nat \<Rightarrow> SearchSpace \<Rightarrow> error + (Series list \<times> SearchSpace)" where
  "recommend rcm batch_quantity sp =
     (case get_candidates False False sp of
        Inl e \<Rightarrow> Inl e
      | Inr candidates \<Rightarrow>
          (let rec = take batch_quantity (rcm candidates)
           in Inr (rec, mark_recommended rec sp)))"

definition add_measurements :: "Series list \<Rightarrow> SearchSpace \<Rightarrow> SearchSpace" where
  "add_measurements rec sp = mark_measured rec sp"

text \<open>
  Modelled from the spec (section 4.3, the note on tolerance): a measured value is
  matched to the declared level within the tolerance of it; no such level is a no-match
  error, two or more are an \<open>AmbiguousToleranceMatchError\<close>.
\<close>

fun levels :: "cell list \<Rightarrow> rat list" where
  "levels [] = []"
| "levels (Num a # vs) = a # levels vs"
| "levels (Str s # vs) = levels vs"

definition match_level :: "parameter \<Rightarrow> rat \<Rightarrow> error + rat" where
  "match_level p x =
     (let tol = (case param_tolerance p of None \<Rightarrow> 0 | Some t \<Rightarrow> t);
          near = filter (\<lambda>a. \<bar>x - a\<bar> \<le> tol) (remdups (levels (param_values p)))
      in case near of
           [] \<Rightarrow> Inl (NoMatchError x)
         | [a] \<Rightarrow> Inr a
         | _ \<Rightarrow> Inl (AmbiguousToleranceMatchError x near))"

section \<open>The search space of the example\<close>

text \<open>
  Modelled from the spec: the encodings of the example's parameters, whose classes are
  not among the source files. \<open>INT\<close> is the position of the value in the declared
  list, a number encodes as itself, and the \<open>RDKIT\<close> descriptors of a substance are
  computed outside the repository and stay a parameter. The names, values and tolerances
  of the four parameters are those of lines 29 to 38.
\<close>

definition int_encoding :: "cell list \<Rightarrow> cell \<Rightarrow> rat list" where
  "int_encoding vs v = [of_nat (length (takeWhile (\<lambda>x. x \<noteq> v) vs))]"

fun numeric_encoding :: "cell \<Rightarrow> rat list" where
  "numeric_encoding (Num a) = [a]"
| "numeric_encoding (Str s) = []"

definition solvent :: "(cell \<Rightarrow> rat list) \<Rightarrow> parameter" where
  "solvent rdkit =
     \<lparr>param_name = ''Solvent'', param_values = map (\<lambda>(k, smiles). Str k) dict_solvent,
      param_tolerance = None, param_encoding = rdkit\<rparr>"

definition speed :: parameter where
  "speed =
     \<lparr>param_name = ''Speed'', param_values = speed_values,
      param_tolerance = None, param_encoding = int_encoding speed_values\<rparr>"

definition temperature :: parameter where
  "temperature =
     \<lparr>param_name = ''Temperature'', param_values = temperature_values,
      param_tolerance = Some (1 / 2), param_encoding = numeric_encoding\<rparr>"

definition concentration :: parameter where
  "concentration =
     \<lparr>param_name = ''Concentration'', param_values = concentration_values,
      param_tolerance = Some (2 / 5), param_encoding = numeric_encoding\<rparr>"

definition example_parameters :: "(cell \<Rightarrow> rat list) \<Rightarrow> parameter list" where
  "example_parameters rdkit = [solvent rdkit, speed, temperature, concentration]"

text \<open>
  \<open>dict_constraint\<close>, \<open>constraint\<close> and \<open>searchspace\<close> (lines 66 to 73): the names are
  declared in the order Concentration, Solvent, Temperature, and the validator is
  \<open>custom_function\<close>.
\<close>

definition constraint :: CustomConstraint where
  "constraint =
     CustomConstraint_create [''Concentration'', ''Solvent'', ''Temperature''] custom_function"

definition searchspace :: "(cell \<Rightarrow> rat list) \<Rightarrow> error + SearchSpace" where
  "searchspace rdkit = SearchSpace_create (example_parameters rdkit) [constraint] False"

text \<open>
  The rows whose solvent is a label and whose temperature and concentration are
  numbers, as the values of the example's parameters are.
\<close>

definition typed_row :: "Series \<Rightarrow> bool" where
  "typed_row r =
     (\<forall>(n, v) \<in> set r.
        (n = ''Solvent'' \<longrightarrow> (\<exists>s. v = Str s))
        \<and> (n = ''Temperature'' \<or> n = ''Concentration'' \<longrightarrow> (\<exists>a. v = Num a)))"

text \<open>
  The loop of the example (lines 84 to 128): each iteration prints the three counts, asks
  for a batch of five and adds it as measurements (\<open>add_fake_results\<close> fills in target
  values and does not touch the search space). The result is what was printed, and the
  search space at the end or the exception that ended the loop.
\<close>

definition N_ITERATIONS :: nat where
  "N_ITERATIONS = 5"

fun loop :: "recommender \<Rightarrow> nat \<Rightarrow> SearchSpace \<Rightarrow> (nat \<times> nat \<times> nat) list \<times> (error + SearchSpace)" where
  "loop rcm 0 sp = ([], Inr sp)"
| "loop rcm (Suc k) sp =
     (case asserts (exp_rep (discrete sp)) of
        Inl e \<Rightarrow> ([], Inl e)
      | Inr counts \<Rightarrow>
         (case recommend rcm 5 sp of
            Inl e \<Rightarrow> ([counts], Inl e)
          | Inr (rec, sp1) \<Rightarrow>
             (case loop rcm k (add_measurements rec sp1) of
                (printed, result) \<Rightarrow> (counts # printed, result))))"

section \<open>Properties of the binary target\<close>

lemma py_eq_sym: "py_eq a b = py_eq b a"
  by (cases a; cases b) auto

lemma py_eq_trans: "py_eq a b \<Longrightarrow> py_eq b c \<Longrightarrow> py_eq a c"
  by (cases a; cases b; cases c) (auto split: if_splits)




text \<open>
  Claim C8. The positive value is checked first: a value equal to it maps to 1 whatever
  the negative value is. Construction accepts a target whose two values are the same, and
  for a target whose values are equal the shared value maps to 1 and no value maps to 0.
\<close>

theorem positive_value_checked_first:
  "(py_eq v (positive_value t) \<longrightarrow> transform_to_binary t v = Inr 1)
   \<and> positive_value (BinaryTarget_init n (Some x) (Some x)) = x
   \<and> negative_value (BinaryTarget_init n (Some x) (Some x)) = x
   \<and> (py_eq (positive_value t) (negative_value t) \<longrightarrow>
        transform_to_binary t (negative_value t) = Inr 1 \<and> transform_to_binary t v \<noteq> Inr 0)"
proof -
  have first: "py_eq v (positive_value t) \<longrightarrow> transform_to_binary t v = Inr 1"
    by (simp add: transform_to_binary_def)
  have shared: "transform_to_binary t (negative_value t) = Inr 1 \<and> transform_to_binary t v \<noteq> Inr 0"
    if eq: "py_eq (positive_value t) (negative_value t)"
  proof
    from eq have "py_eq (negative_value t) (positive_value t)"
      by (simp add: py_eq_sym)
    then show "transform_to_binary t (negative_value t) = Inr 1"
      by (simp add: transform_to_binary_def)
    show "transform_to_binary t v \<noteq> Inr 0"
    proof (cases "py_eq v (positive_value t)")
      case True
      then show ?thesis by (simp add: transform_to_binary_def)
    next
      case False
      have "\<not> py_eq v (negative_value t)"
      proof
        assume "py_eq v (negative_value t)"
        moreover have "py_eq (negative_value t) (positive_value t)"
          using eq by (simp add: py_eq_sym)
        ultimately have "py_eq v (positive_value t)" by (rule py_eq_trans)
        with False show False by simp
      qed
      with False show ?thesis by (simp add: transform_to_binary_def)
    qed
  qed
  show ?thesis
    using first shared by (simp add: BinaryTarget_init_def)
qed

theorem positive_value_checked_first_witness:
  "transform_to_binary (BinaryTarget_init ''hit'' (Some (PyStr ''yes'')) (Some (PyStr ''yes'')))
     (PyStr ''yes'') = Inr 1
   \<and> transform_to_binary (BinaryTarget_init ''hit'' (Some (PyStr ''yes'')) (Some (PyStr ''yes'')))
     (PyStr ''no'') \<noteq> Inr 0
   \<and> transform_to_binary (BinaryTarget_init ''hit'' (Some (PyBool True)) (Some (PyInt 1)))
     (PyInt 1) = Inr 1"
  using positive_value_checked_first
      [of "PyStr ''no''" "BinaryTarget_init ''hit'' (Some (PyStr ''yes'')) (Some (PyStr ''yes''))"]
    positive_value_checked_first
      [of "PyInt 1" "BinaryTarget_init ''hit'' (Some (PyBool True)) (Some (PyInt 1))"]
  by (simp add: BinaryTarget_init_def)

text \<open>
  Claim C9. \<open>transform\<close> fails its assertion for a frame whose number of columns is not
  one. For a frame with one column whose values all encode, it returns the reference it
  was given, and the store it leaves holds the encoding in that column of that very frame
  and is unchanged elsewhere; so the caller's frame differs afterwards whenever the
  encoding differs from the values it held.
\<close>

theorem transform_mutates_in_place:
  "(length (s data) \<noteq> 1 \<longrightarrow> transform t data s = Inl AssertionError)
   \<and> (s data = [(col, xs)] \<and> apply_series (transform_to_binary t) xs = Inr ys \<longrightarrow>
        (\<exists>s'. transform t data s = Inr (data, s')
              \<and> s' data = [(col, map PyInt ys)]
              \<and> (\<forall>r. r \<noteq> data \<longrightarrow> s' r = s r)
              \<and> (map PyInt ys \<noteq> xs \<longrightarrow> s' \<noteq> s)))"
proof (intro conjI impI)
  assume "length (s data) \<noteq> 1"
  then show "transform t data s = Inl AssertionError"
    by (auto simp: transform_def split: list.splits)
next
  assume ok: "s data = [(col, xs)] \<and> apply_series (transform_to_binary t) xs = Inr ys"
  define s' where "s' = s(data := [(col, map PyInt ys)])"
  have "transform t data s = Inr (data, s')"
    using ok by (simp add: transform_def s'_def)
  moreover have "s' data = [(col, map PyInt ys)]"
    by (simp add: s'_def)
  moreover have "\<forall>r. r \<noteq> data \<longrightarrow> s' r = s r"
    by (simp add: s'_def)
  moreover have "map PyInt ys \<noteq> xs \<longrightarrow> s' \<noteq> s"
  proof
    assume "map PyInt ys \<noteq> xs"
    with ok have "s' data \<noteq> s data" by (simp add: s'_def)
    then show "s' \<noteq> s" by auto
  qed
  ultimately show "\<exists>s'. transform t data s = Inr (data, s')
              \<and> s' data = [(col, map PyInt ys)]
              \<and> (\<forall>r. r \<noteq> data \<longrightarrow> s' r = s r)
              \<and> (map PyInt ys \<noteq> xs \<longrightarrow> s' \<noteq> s)"
    by blast
qed

theorem transform_mutates_in_place_witness:
  "transform (BinaryTarget_init ''hit'' (Some (PyStr ''yes'')) (Some (PyStr ''no''))) 0
     ((\<lambda>r. [])(0 := [(''hit'', [PyStr ''yes'', PyStr ''no''])]))
   = Inr (0, (\<lambda>r. [])(0 := [(''hit'', [PyInt 1, PyInt 0])]))
   \<and> transform (BinaryTarget_init ''hit'' None None) 1
     ((\<lambda>r. [])(1 := [(''hit'', [PyInt 1]), (''miss'', [PyInt 0])])) = Inl AssertionError
   \<and> transform (BinaryTarget_init ''hit'' None None) 2 (\<lambda>r. []) = Inl AssertionError"
  using transform_mutates_in_place
      [of "(\<lambda>r. [])(0 := [(''hit'', [PyStr ''yes'', PyStr ''no''])])" 0
          "BinaryTarget_init ''hit'' (Some (PyStr ''yes'')) (Some (PyStr ''no''))"
          "''hit''" "[PyStr ''yes'', PyStr ''no'']" "[1, 0]"]
    transform_mutates_in_place
      [of "(\<lambda>r. [])(1 := [(''hit'', [PyInt 1]), (''miss'', [PyInt 0])])" 1
          "BinaryTarget_init ''hit'' None None"]
    transform_mutates_in_place [of "\<lambda>r. []" 2 "BinaryTarget_init ''hit'' None None"]
  by (auto simp: BinaryTarget_init_def transform_to_binary_def transform_def)

section \<open>Properties of the UUID hooks\<close>

lemma digit_char_cases:
  assumes "d < (16::nat)"
  shows "d \<in> {0,1,2,3,4,5,6,7,8,9,10,11,12,13,14,15}"
  using assms by simp arith

lemma digit_char_lower_hex: "d < 16 \<Longrightarrow> digit_char d \<in> lower_hex"
  using digit_char_cases [of d] by (auto simp: digit_char_def lower_hex_def)

lemma hexval_digit_char: "d < 16 \<Longrightarrow> hexval (digit_char d) = Some d"
  using digit_char_cases [of d] by (auto simp: hexval_def digit_char_def)

lemma hexval_lower_hex: "c \<in> lower_hex \<Longrightarrow> hexval c \<noteq> None"
  by (auto simp: lower_hex_def hexval_def)

lemma lower_hex_plain:
  "c \<in> lower_hex \<Longrightarrow>
     c \<noteq> CHR ''-'' \<and> c \<noteq> CHR ''+'' \<and> c \<noteq> CHR ''_'' \<and> c \<noteq> CHR ''x'' \<and> c \<noteq> CHR ''X''
     \<and> c \<noteq> CHR ''u'' \<and> c \<noteq> CHR ''{'' \<and> c \<noteq> CHR ''}'' \<and> \<not> is_space c"
  by (auto simp: lower_hex_def is_space_def)

lemma hex_digits_lower_hex: "0 \<le> n \<Longrightarrow> set (hex_digits n) \<subseteq> lower_hex"
proof (induction n rule: hex_digits.induct)
  case (1 n)
  show ?case
  proof (cases "n < 16")
    case True
    with "1.prems" have "nat n < 16" by simp
    then show ?thesis
      using True by (simp add: hex_digits.simps [of n] digit_char_lower_hex)
  next
    case False
    with "1.prems" have "0 \<le> n div 16" by simp
    with "1.IH" False have "set (hex_digits (n div 16)) \<subseteq> lower_hex" by simp
    moreover have "nat (n mod 16) < 16" by simp
    ultimately show ?thesis
      using False by (simp add: hex_digits.simps [of n] digit_char_lower_hex)
  qed
qed

lemma div16_less: "n < 16 * (x::int) \<Longrightarrow> n div 16 < x"
  by arith

lemma hex_digits_length: "0 \<le> n \<Longrightarrow> n < 16 ^ Suc k \<Longrightarrow> length (hex_digits n) \<le> Suc k"
proof (induction k arbitrary: n)
  case 0
  then show ?case by (simp add: hex_digits.simps [of n])
next
  case (Suc k)
  show ?case
  proof (cases "n < 16")
    case True
    then show ?thesis by (simp add: hex_digits.simps [of n])
  next
    case False
    have "n < 16 * 16 ^ Suc k" using Suc.prems by simp
    then have "n div 16 < 16 ^ Suc k" by (rule div16_less)
    moreover have "0 \<le> n div 16" using Suc.prems by simp
    ultimately have "length (hex_digits (n div 16)) \<le> Suc k" by (rule Suc.IH [rotated])
    then show ?thesis using False by (simp add: hex_digits.simps [of n])
  qed
qed

lemma hex_digits_nonempty: "hex_digits n \<noteq> []"
  by (simp add: hex_digits.simps [of n])

lemma digits_value_snoc: "digits_value (ds @ [d]) = 16 * digits_value ds + int d"
  by (simp add: digits_value_def)

lemma digits_value_zeros: "digits_value (replicate k 0 @ ds) = digits_value ds"
proof -
  have "foldl (\<lambda>a d. 16 * a + int d) 0 (replicate k 0) = 0"
    by (induction k) simp_all
  then show ?thesis by (simp add: digits_value_def)
qed

lemma digits_value_hex_digits:
  "0 \<le> n \<Longrightarrow> digits_value (map (\<lambda>c. the (hexval c)) (hex_digits n)) = n"
proof (induction n rule: hex_digits.induct)
  case (1 n)
  show ?case
  proof (cases "n < 16")
    case True
    with "1.prems" have "nat n < 16" by simp
    then show ?thesis
      using True "1.prems" by (simp add: hex_digits.simps [of n] hexval_digit_char digits_value_def)
  next
    case False
    with "1.prems" have "0 \<le> n div 16" by simp
    with "1.IH" False
    have "digits_value (map (\<lambda>c. the (hexval c)) (hex_digits (n div 16))) = n div 16" by simp
    moreover have "nat (n mod 16) < 16" by simp
    ultimately show ?thesis
      using False by (simp add: hex_digits.simps [of n] hexval_digit_char digits_value_snoc)
  qed
qed

lemma literal_digits_plain:
  "s \<noteq> [] \<Longrightarrow> set s \<subseteq> lower_hex \<Longrightarrow> literal_digits s = Some (map (\<lambda>c. the (hexval c)) s)"
proof (induction s rule: literal_digits.induct)
  case 1
  then show ?case by simp
next
  case (2 c)
  then show ?case using hexval_lower_hex [of c] by auto
next
  case (3 c u r)
  from "3.prems" have c: "hexval c \<noteq> None" and u: "u \<noteq> CHR ''_''"
    using hexval_lower_hex [of c] lower_hex_plain [of u] by auto
  from c obtain d where d: "hexval c = Some d" by auto
  from "3.IH"(2) [OF d u] "3.prems"
  have "literal_digits (u # r) = Some (map (\<lambda>c. the (hexval c)) (u # r))" by simp
  with d u show ?case by simp
qed


lemma dropWhile_hd: "s = [] \<or> \<not> P (hd s) \<Longrightarrow> dropWhile P s = s"
  by (cases s) auto

lemma str_strip_id: "s \<noteq> [] \<Longrightarrow> \<not> P (hd s) \<Longrightarrow> \<not> P (last s) \<Longrightarrow> str_strip P s = s"
  by (simp add: str_strip_def dropWhile_hd hd_rev)

lemma str_remove_absent: "old \<noteq> [] \<Longrightarrow> hd old \<notin> set s \<Longrightarrow> str_remove old s = s"
proof (induction s)
  case Nil
  then show ?case by (simp add: str_remove.simps)
next
  case (Cons c s)
  from Cons.prems obtain o1 os where old: "old = o1 # os" by (cases old) auto
  with Cons.prems have "o1 \<noteq> c" by auto
  with old have "take (length old) (c # s) \<noteq> old" by auto
  with Cons show ?case by (simp add: str_remove.simps)
qed

lemma str_remove_hyphen: "str_remove ''-'' s = filter (\<lambda>c. c \<noteq> CHR ''-'') s"
  by (induction s) (auto simp: str_remove.simps)

lemma regroup: "slice 0 8 h @ slice 8 12 h @ slice 12 16 h @ slice 16 20 h @ drop 20 h = h"
proof -
  have "take 4 (drop 16 h) @ drop 20 h = drop 16 h"
    using append_take_drop_id [of 4 "drop 16 h"] by simp
  moreover have "take 4 (drop 12 h) @ drop 16 h = drop 12 h"
    using append_take_drop_id [of 4 "drop 12 h"] by simp
  moreover have "take 4 (drop 8 h) @ drop 12 h = drop 8 h"
    using append_take_drop_id [of 4 "drop 8 h"] by simp
  ultimately show ?thesis by (simp add: slice_def)
qed


lemma zero_pad_props:
  assumes "length s \<le> w" and "set s \<subseteq> lower_hex"
  shows "length (zero_pad w s) = w"
    and "set (zero_pad w s) \<subseteq> lower_hex"
    and "digits_value (map (\<lambda>c. the (hexval c)) (zero_pad w s))
         = digits_value (map (\<lambda>c. the (hexval c)) s)"
proof -
  show "length (zero_pad w s) = w"
    using assms by (simp add: zero_pad_def)
  have "CHR ''0'' \<in> lower_hex" by (simp add: lower_hex_def)
  then show "set (zero_pad w s) \<subseteq> lower_hex"
    using assms by (auto simp: zero_pad_def)
  have "the (hexval CHR ''0'') = 0" by (simp add: hexval_def)
  then show "digits_value (map (\<lambda>c. the (hexval c)) (zero_pad w s))
         = digits_value (map (\<lambda>c. the (hexval c)) s)"
    by (simp add: zero_pad_def digits_value_zeros)
qed

lemma format_032x_uint:
  fixes u :: UUID
  shows "length (format_032x (uint u)) = 32"
    and "set (format_032x (uint u)) \<subseteq> lower_hex"
    and "digits_value (map (\<lambda>c. the (hexval c)) (format_032x (uint u))) = uint u"
proof -
  have nonneg: "0 \<le> uint u" by simp
  have "uint u < 2 ^ LENGTH(128)" by (rule uint_lt2p)
  then have "uint u < 16 ^ Suc 31" by simp
  with nonneg have len: "length (hex_digits (uint u)) \<le> 32"
    using hex_digits_length [of "uint u" 31] by simp
  have sub: "set (hex_digits (uint u)) \<subseteq> lower_hex"
    using nonneg by (rule hex_digits_lower_hex)
  have fmt: "format_032x (uint u) = zero_pad 32 (hex_digits (uint u))"
    by (simp add: format_032x_def)
  show "length (format_032x (uint u)) = 32"
    using zero_pad_props(1) [OF len sub] fmt by simp
  show "set (format_032x (uint u)) \<subseteq> lower_hex"
    using zero_pad_props(2) [OF len sub] fmt by simp
  show "digits_value (map (\<lambda>c. the (hexval c)) (format_032x (uint u))) = uint u"
    using zero_pad_props(3) [OF len sub] fmt digits_value_hex_digits [OF nonneg] by simp
qed

lemma int16_plain:
  assumes len: "2 \<le> length s" and sub: "set s \<subseteq> lower_hex"
  shows "int16 s = Inr (digits_value (map (\<lambda>c. the (hexval c)) s))"
proof -
  from len obtain a b r where s: "s = a # b # r"
    by (cases s; cases "tl s") auto
  have ne: "s \<noteq> []" using s by simp
  have "hd s \<in> lower_hex" and "last s \<in> lower_hex"
    using sub ne hd_in_set [OF ne] last_in_set [OF ne] by auto
  then have strip: "str_strip is_space s = s"
    using lower_hex_plain str_strip_id [OF ne] by blast
  have a: "a \<noteq> CHR ''-'' \<and> a \<noteq> CHR ''+''"
    using lower_hex_plain [of a] sub s by simp
  have b: "b \<noteq> CHR ''x'' \<and> b \<noteq> CHR ''X''"
    using lower_hex_plain [of b] sub s by simp
  have "literal_digits s = Some (map (\<lambda>c. the (hexval c)) s)"
    using ne sub by (rule literal_digits_plain)
  then show ?thesis
    using strip a b s by (simp add: int16_def)
qed

lemma UUID_str_cleaned:
  fixes u :: UUID
  shows "str_remove ''-'' (str_strip (\<lambda>c. c = CHR ''{'' \<or> c = CHR ''}'')
           (str_remove ''uuid:'' (str_remove ''urn:'' (UUID_str u))))
         = format_032x (uint u)"
proof -
  define h where "h = format_032x (uint u)"
  define t where "t = UUID_str u"
  have len: "length h = 32" and sub: "set h \<subseteq> lower_hex"
    unfolding h_def by (rule format_032x_uint)+
  have t: "t = slice 0 8 h @ ''-'' @ slice 8 12 h @ ''-'' @ slice 12 16 h @ ''-''
               @ slice 16 20 h @ ''-'' @ drop 20 h"
    by (simp add: t_def h_def UUID_str_def Let_def)
  have in_t: "c \<in> lower_hex \<or> c = CHR ''-''" if "c \<in> set t" for c
    using that sub unfolding t slice_def
    by (auto dest!: in_set_takeD in_set_dropD)
  have no_u: "CHR ''u'' \<notin> set t"
    using in_t lower_hex_plain by fastforce
  have urn: "str_remove ''urn:'' t = t"
    using no_u by (simp add: str_remove_absent)
  have uuid: "str_remove ''uuid:'' t = t"
    using no_u by (simp add: str_remove_absent)
  have ne: "t \<noteq> []" by (simp add: t)
  have "hd t \<in> set t" and "last t \<in> set t"
    using ne by simp_all
  then have "\<not> (hd t = CHR ''{'' \<or> hd t = CHR ''}'')" and "\<not> (last t = CHR ''{'' \<or> last t = CHR ''}'')"
    using in_t lower_hex_plain by fastforce+
  then have strip: "str_strip (\<lambda>c. c = CHR ''{'' \<or> c = CHR ''}'') t = t"
    using ne by (simp add: str_strip_id)
  have keep: "filter (\<lambda>c. c \<noteq> CHR ''-'') xs = xs" if "set xs \<subseteq> set h" for xs
    using that sub lower_hex_plain by (intro filter_True) blast
  have "filter (\<lambda>c. c \<noteq> CHR ''-'') t
        = slice 0 8 h @ slice 8 12 h @ slice 12 16 h @ slice 16 20 h @ drop 20 h"
    unfolding t
    by (simp add: keep slice_def set_take_subset set_drop_subset
        subset_trans [OF set_take_subset set_drop_subset])
  then have "str_remove ''-'' t = h"
    by (simp add: str_remove_hyphen regroup)
  then show ?thesis
    using urn uuid strip by (simp add: t_def h_def)
qed

text \<open>
  Claim C5. The structure hook applied to the output of the unstructure hook gives back
  the UUID: \<open>UUID(str(u)) == u\<close> for every UUID \<open>u\<close>.
\<close>

theorem uuid_hooks_roundtrip: "structure_hook (unstructure_hook u) cl = Inr u"
proof -
  have len: "length (format_032x (uint u)) = 32"
    and sub: "set (format_032x (uint u)) \<subseteq> lower_hex"
    and val: "digits_value (map (\<lambda>c. the (hexval c)) (format_032x (uint u))) = uint u"
    by (rule format_032x_uint)+
  have "int16 (format_032x (uint u)) = Inr (uint u)"
    using int16_plain [of "format_032x (uint u)"] len sub val by simp
  moreover have "uint u < 2 ^ 128"
    using uint_lt2p [of u] by simp
  ultimately show ?thesis
    using len UUID_str_cleaned [of u]
    by (simp add: structure_hook_def unstructure_hook_def UUID_init_def Let_def)
qed

section \<open>Properties of the discrete subspace builder\<close>

lemma collect_map_Inr:
  "collect (map f vs) = Inr rows \<Longrightarrow> r \<in> set rows \<Longrightarrow>
     \<exists>v rs. v \<in> set vs \<and> f v = Inr rs \<and> r \<in> set rs"
proof (induction vs arbitrary: rows)
  case Nil
  then show ?case by simp
next
  case (Cons v vs)
  from Cons.prems(1) obtain a rest where
    a: "f v = Inr a" and rest: "collect (map f vs) = Inr rest" and rows: "rows = a @ rest"
    by (auto split: sum.splits)
  from Cons.prems(2) rows consider "r \<in> set a" | "r \<in> set rest" by auto
  then show ?case
  proof cases
    case 1
    with a show ?thesis by auto
  next
    case 2
    from Cons.IH [OF rest 2] show ?thesis by auto
  qed
qed

lemma collect_map_total:
  assumes "\<And>v. v \<in> set vs \<Longrightarrow> \<exists>rs. f v = Inr rs"
  shows "\<exists>rows. collect (map f vs) = Inr rows"
  using assms
proof (induction vs)
  case Nil
  then show ?case by simp
next
  case (Cons v vs)
  then obtain rs where "f v = Inr rs" by auto
  moreover from Cons obtain rows where "collect (map f vs) = Inr rows" by auto
  ultimately show ?case by simp
qed

lemma check_True: "check cs row = Inr True \<Longrightarrow> (i, c) \<in> set cs \<Longrightarrow> is_valid i c row = Inr True"
  by (induction cs row rule: check.induct) (auto split: sum.splits if_splits)

lemma check_total:
  "(\<And>i c. (i, c) \<in> set cs \<Longrightarrow> \<exists>b. is_valid i c row = Inr b) \<Longrightarrow> \<exists>b. check cs row = Inr b"
proof (induction cs row rule: check.induct)
  case (1 row)
  then show ?case by auto
next
  case (2 i c cs row)
  from "2.prems" obtain b where b: "is_valid i c row = Inr b" by auto
  show ?case
  proof (cases b)
    case True
    with "2.IH" [OF b] "2.prems" b show ?thesis by auto
  next
    case False
    with b show ?thesis by auto
  qed
qed

lemma bind_row_cong:
  "(\<And>n. n \<in> set ns \<Longrightarrow> map_of row' n = map_of row n) \<Longrightarrow> bind_row ns row' = bind_row ns row"
proof (induction ns)
  case Nil
  then show ?case by simp
next
  case (Cons a ns)
  have "map_of row' a = map_of row a" using Cons.prems by simp
  moreover have "bind_row ns row' = bind_row ns row" using Cons by simp
  ultimately show ?case by (simp split: option.splits)
qed

lemma map_of_append_left: "n \<in> set (map fst row) \<Longrightarrow> map_of (row @ ext) n = map_of row n"
  by (auto simp: map_add_dom_app_simps dom_map_of_conv_image_fst)

lemma is_valid_extend:
  assumes "ready c row" and "is_valid i c row = Inr b"
  shows "is_valid i c (row @ ext) = Inr b"
proof -
  have "bind_row (parameters c) (row @ ext) = bind_row (parameters c) row"
    using assms(1) by (intro bind_row_cong map_of_append_left) (auto simp: ready_def)
  with assms(2) show ?thesis
    by (auto simp: is_valid_def split: sum.splits)
qed


lemma all_valid_step:
  assumes "all_valid cs row"
    and "check (newly_ready cs row (row @ ext)) (row @ ext) = Inr True"
  shows "all_valid cs (row @ ext)"
  unfolding all_valid_def
proof (intro ballI, clarify)
  fix i c
  assume ic: "(i, c) \<in> set cs" and rdy: "ready c (row @ ext)"
  show "is_valid i c (row @ ext) = Inr True"
  proof (cases "ready c row")
    case True
    with assms(1) ic have "is_valid i c row = Inr True" by (auto simp: all_valid_def)
    with True show ?thesis by (rule is_valid_extend)
  next
    case False
    with ic rdy have "(i, c) \<in> set (newly_ready cs row (row @ ext))"
      by (simp add: newly_ready_def)
    with assms(2) show ?thesis by (rule check_True)
  qed
qed

lemma product_rows_sound:
  "product_rows ps cs row = Inr rows \<Longrightarrow> all_valid cs row \<Longrightarrow> r \<in> set rows \<Longrightarrow> all_valid cs r"
proof (induction ps arbitrary: row rows)
  case Nil
  then show ?case by auto
next
  case (Cons p ps)
  let ?f = "\<lambda>v. case check (newly_ready cs row (row @ [(param_name p, v)]))
                         (row @ [(param_name p, v)]) of
                    Inl e \<Rightarrow> Inl e
                  | Inr ok \<Rightarrow>
                      if ok then product_rows ps cs (row @ [(param_name p, v)]) else Inr []"
  from Cons.prems(1) have "collect (map ?f (param_values p)) = Inr rows" by simp
  from collect_map_Inr [OF this Cons.prems(3)]
  obtain v rs where v: "v \<in> set (param_values p)" "?f v = Inr rs" "r \<in> set rs" by blast
  from v(2,3) have chk: "check (newly_ready cs row (row @ [(param_name p, v)]))
                         (row @ [(param_name p, v)]) = Inr True"
    and rec: "product_rows ps cs (row @ [(param_name p, v)]) = Inr rs"
    by (auto split: sum.splits if_splits)
  from Cons.prems(2) chk have valid: "all_valid cs (row @ [(param_name p, v)])"
    by (rule all_valid_step)
  show ?case by (rule Cons.IH [OF rec valid v(3)])
qed

lemma product_rows_shape:
  "product_rows ps cs row = Inr rows \<Longrightarrow> r \<in> set rows \<Longrightarrow>
     \<exists>vs. r = row @ zip (map param_name ps) vs \<and> list_all2 (\<lambda>p v. v \<in> set (param_values p)) ps vs"
proof (induction ps arbitrary: row rows)
  case Nil
  then show ?case by auto
next
  case (Cons p ps)
  let ?f = "\<lambda>v. case check (newly_ready cs row (row @ [(param_name p, v)]))
                         (row @ [(param_name p, v)]) of
                    Inl e \<Rightarrow> Inl e
                  | Inr ok \<Rightarrow>
                      if ok then product_rows ps cs (row @ [(param_name p, v)]) else Inr []"
  from Cons.prems(1) have "collect (map ?f (param_values p)) = Inr rows" by simp
  from collect_map_Inr [OF this Cons.prems(2)]
  obtain v rs where v: "v \<in> set (param_values p)" "?f v = Inr rs" "r \<in> set rs" by blast
  from v(2,3) have rec: "product_rows ps cs (row @ [(param_name p, v)]) = Inr rs"
    by (auto split: sum.splits if_splits)
  from Cons.IH [OF rec v(3)] obtain vs where
    vs: "r = (row @ [(param_name p, v)]) @ zip (map param_name ps) vs"
        "list_all2 (\<lambda>p v. v \<in> set (param_values p)) ps vs" by blast
  then have "r = row @ zip (map param_name (p # ps)) (v # vs)
      \<and> list_all2 (\<lambda>p v. v \<in> set (param_values p)) (p # ps) (v # vs)"
    using v(1) by simp
  then show ?case by blast
qed

lemma product_rows_total:
  assumes step: "\<And>p v r. p \<in> set ps \<Longrightarrow> v \<in> set (param_values p) \<Longrightarrow> P r \<Longrightarrow> P (r @ [(param_name p, v)])"
    and ok: "\<And>i c r. (i, c) \<in> set cs \<Longrightarrow> P r \<Longrightarrow> ready c r \<Longrightarrow> \<exists>b. is_valid i c r = Inr b"
    and "P row"
  shows "\<exists>rows. product_rows ps cs row = Inr rows"
  using assms
proof (induction ps arbitrary: row)
  case Nil
  then show ?case by simp
next
  case (Cons p ps)
  let ?f = "\<lambda>v. case check (newly_ready cs row (row @ [(param_name p, v)]))
                         (row @ [(param_name p, v)]) of
                    Inl e \<Rightarrow> Inl e
                  | Inr ok \<Rightarrow>
                      if ok then product_rows ps cs (row @ [(param_name p, v)]) else Inr []"
  have "\<exists>rs. ?f v = Inr rs" if v: "v \<in> set (param_values p)" for v
  proof -
    let ?row = "row @ [(param_name p, v)]"
    have P: "P ?row" using Cons.prems(1) [of p v row] v Cons.prems(3) by simp
    have "\<exists>b. is_valid i c ?row = Inr b" if "(i, c) \<in> set (newly_ready cs row ?row)" for i c
      using that Cons.prems(2) [of i c ?row] P by (auto simp: newly_ready_def)
    then obtain b where b: "check (newly_ready cs row ?row) ?row = Inr b"
      using check_total by blast
    have "\<exists>rows. product_rows ps cs ?row = Inr rows"
      using Cons.prems(1,2) P by (intro Cons.IH) auto
    with b show ?thesis by (cases b) auto
  qed
  then have "\<exists>rows. collect (map ?f (param_values p)) = Inr rows"
    by (rule collect_map_total)
  then show ?case by simp
qed

lemma apply_series_nth:
  "apply_series f xs = Inr ys \<Longrightarrow>
     length ys = length xs \<and> (\<forall>i<length xs. f (xs ! i) = Inr (ys ! i))"
proof (induction xs arbitrary: ys)
  case Nil
  then show ?case by simp
next
  case (Cons x xs)
  from Cons.prems obtain y rest where
    y: "f x = Inr y" and rest: "apply_series f xs = Inr rest" and ys: "ys = y # rest"
    by (auto split: sum.splits)
  from Cons.IH [OF rest] y ys show ?case
    by (auto simp: nth_Cons split: nat.splits)
qed

lemma apply_series_total:
  "(\<And>x. x \<in> set xs \<Longrightarrow> \<exists>y. f x = Inr y) \<Longrightarrow> \<exists>ys. apply_series f xs = Inr ys"
proof (induction xs)
  case Nil
  then show ?case by simp
next
  case (Cons x xs)
  then obtain y where "f x = Inr y" by auto
  moreover from Cons obtain ys where "apply_series f xs = Inr ys" by auto
  ultimately show ?case by simp
qed

lemma set_dedup: "set (dedup seen xs) = set xs - set seen"
  by (induction xs arbitrary: seen) auto

lemma distinct_dedup: "distinct (dedup seen xs)"
  by (induction xs arbitrary: seen) (auto simp: set_dedup)

lemma encode_in_domain:
  "v \<in> set (param_values p) \<Longrightarrow> encode p v = Inr (param_encoding p v)"
proof -
  have "map_of (map (\<lambda>v. (v, g v)) vs) v = Some (g v)" if "v \<in> set vs" for vs :: "cell list" and g :: "cell \<Rightarrow> rat list"
    using that by (induction vs) auto
  then show "v \<in> set (param_values p) \<Longrightarrow> encode p v = Inr (param_encoding p v)"
    by (simp add: encode_def encoding_table_def)
qed

lemma encode_outside_domain:
  "v \<notin> set (param_values p) \<Longrightarrow> encode p v = Inl (DomainError (param_name p) v)"
proof -
  have "map_of (map (\<lambda>v. (v, g v)) vs) v = None" if "v \<notin> set vs" for vs :: "cell list" and g :: "cell \<Rightarrow> rat list"
    using that by (induction vs) auto
  then show "v \<notin> set (param_values p) \<Longrightarrow> encode p v = Inl (DomainError (param_name p) v)"
    by (simp add: encode_def encoding_table_def)
qed

lemma encode_row_cong:
  "(\<And>p. p \<in> set ps \<Longrightarrow> map_of r' (param_name p) = map_of r (param_name p)) \<Longrightarrow>
     encode_row ps r' = encode_row ps r"
proof (induction ps)
  case Nil
  then show ?case by simp
next
  case (Cons p ps)
  have "map_of r' (param_name p) = map_of r (param_name p)" using Cons.prems by simp
  moreover have "encode_row ps r' = encode_row ps r" using Cons by simp
  ultimately show ?case by (simp split: option.splits sum.splits)
qed

lemma encode_row_zip:
  "list_all2 (\<lambda>p v. v \<in> set (param_values p)) ps vs \<Longrightarrow> distinct (map param_name ps) \<Longrightarrow>
     encode_row ps (zip (map param_name ps) vs) = Inr (concat (map2 param_encoding ps vs))"
proof (induction ps vs rule: list_all2_induct)
  case Nil
  then show ?case by simp
next
  case (Cons p ps v vs)
  let ?r = "zip (map param_name ps) vs"
  have "encode_row ps ((param_name p, v) # ?r) = encode_row ps ?r"
  proof (rule encode_row_cong)
    fix q assume "q \<in> set ps"
    then have "param_name q \<in> param_name ` set ps" by (rule imageI)
    with Cons.prems have "param_name q \<noteq> param_name p" by auto
    then show "map_of ((param_name p, v) # ?r) (param_name q) = map_of ?r (param_name q)"
      by simp
  qed
  also have "\<dots> = Inr (concat (map2 param_encoding ps vs))"
    using Cons by simp
  finally show ?case
    using Cons.hyps(1) by (simp add: encode_in_domain)
qed

lemma check_all_True:
  "(\<And>i c. (i, c) \<in> set cs \<Longrightarrow> is_valid i c row = Inr True) \<Longrightarrow> check cs row = Inr True"
  by (induction cs row rule: check.induct) auto

lemma collect_map_branch:
  "collect (map f vs) = Inr rows \<Longrightarrow> v \<in> set vs \<Longrightarrow> \<exists>rs. f v = Inr rs \<and> set rs \<subseteq> set rows"
proof (induction vs arbitrary: rows)
  case Nil
  then show ?case by simp
next
  case (Cons w vs)
  from Cons.prems(1) obtain a rest where
    a: "f w = Inr a" and rest: "collect (map f vs) = Inr rest" and rows: "rows = a @ rest"
    by (auto split: sum.splits)
  show ?case
  proof (cases "v = w")
    case True
    with a rows show ?thesis by auto
  next
    case False
    with Cons.prems(2) have "v \<in> set vs" by simp
    from Cons.IH [OF rest this] rows show ?thesis by auto
  qed
qed

lemma is_valid_restrict:
  assumes "ready c row" and "is_valid i c (row @ ext) = Inr b"
  shows "is_valid i c row = Inr b"
proof -
  have "bind_row (parameters c) (row @ ext) = bind_row (parameters c) row"
    using assms(1) by (intro bind_row_cong map_of_append_left) (auto simp: ready_def)
  with assms(2) show ?thesis
    by (auto simp: is_valid_def split: sum.splits)
qed

lemma ready_extend: "ready c row \<Longrightarrow> ready c (row @ ext)"
  by (auto simp: ready_def)

lemma product_rows_complete:
  "product_rows ps cs row = Inr rows \<Longrightarrow>
   list_all2 (\<lambda>p v. v \<in> set (param_values p)) ps vs \<Longrightarrow>
   all_valid cs (row @ zip (map param_name ps) vs) \<Longrightarrow>
   row @ zip (map param_name ps) vs \<in> set rows"
proof (induction ps arbitrary: row rows vs)
  case Nil
  then show ?case by auto
next
  case (Cons p ps)
  from Cons.prems(2) obtain v vs' where vs: "vs = v # vs'" and v: "v \<in> set (param_values p)"
    and rest: "list_all2 (\<lambda>p v. v \<in> set (param_values p)) ps vs'"
    by (auto simp: list_all2_Cons1)
  let ?row = "row @ [(param_name p, v)]"
  let ?full = "?row @ zip (map param_name ps) vs'"
  have full: "row @ zip (map param_name (p # ps)) vs = ?full" using vs by simp
  let ?f = "\<lambda>v. case check (newly_ready cs row (row @ [(param_name p, v)]))
                         (row @ [(param_name p, v)]) of
                    Inl e \<Rightarrow> Inl e
                  | Inr ok \<Rightarrow>
                      if ok then product_rows ps cs (row @ [(param_name p, v)]) else Inr []"
  from Cons.prems(1) have "collect (map ?f (param_values p)) = Inr rows" by simp
  from collect_map_branch [OF this v] obtain rs where rs: "?f v = Inr rs" "set rs \<subseteq> set rows"
    by blast
  have valid: "all_valid cs ?full" using Cons.prems(3) full by simp
  have "is_valid i c ?row = Inr True" if "(i, c) \<in> set (newly_ready cs row ?row)" for i c
  proof -
    from that have ic: "(i, c) \<in> set cs" and rdy: "ready c ?row"
      by (auto simp: newly_ready_def)
    from rdy have "ready c ?full" by (rule ready_extend)
    with valid ic have "is_valid i c ?full = Inr True" by (auto simp: all_valid_def)
    with rdy show ?thesis by (rule is_valid_restrict)
  qed
  then have "check (newly_ready cs row ?row) ?row = Inr True" by (rule check_all_True)
  with rs(1) have "product_rows ps cs ?row = Inr rs" by simp
  from Cons.IH [OF this rest valid] rs(2) full show ?case by auto
qed


lemma custom_function_typed:
  assumes "map_of ser ''Solvent'' = Some (Str s)"
    and "map_of ser ''Temperature'' = Some (Num t)"
    and "map_of ser ''Concentration'' = Some (Num c)"
  shows "custom_function ser = Inr (\<not> forbidden s t c)"
  using assms
  by (auto simp: custom_function_def attr_eq_def attr_gt_def attr_lt_def getattr_series_def
      py_and_def forbidden_def split: bool.splits)

lemma custom_function_by_name:
  assumes "map_of s = map_of s'"
  shows "custom_function s = custom_function s'"
proof -
  have "getattr_series s = getattr_series s'"
    using assms by (simp add: getattr_series_def fun_eq_iff)
  then have eqs: "attr_eq s = attr_eq s'" "attr_gt s = attr_gt s'" "attr_lt s = attr_lt s'"
    by (simp_all add: attr_eq_def attr_gt_def attr_lt_def fun_eq_iff)
  show ?thesis
    unfolding custom_function_def eqs by (rule refl)
qed

lemma counted_typed:
  assumes "map_of r ''Solvent'' = Some (Str s)"
    and "map_of r ''Temperature'' = Some (Num t)"
    and "map_of r ''Concentration'' = Some (Num c)"
  shows "water_above_120_and_5 r = Inr (s = ''water'' \<and> t > 120 \<and> c > 5)"
    and "water_above_180_and_3 r = Inr (s = ''water'' \<and> t > 180 \<and> c > 3)"
    and "c3_below_150_and_above_3 r = Inr (s = ''C3'' \<and> t < 150 \<and> c > 3)"
  using assms
  by (auto simp: water_above_120_and_5_def water_above_180_and_3_def
      c3_below_150_and_above_3_def and3_def col_eq_def col_gt_def col_lt_def getitem_def)

lemma bind_row_restrict: "bind_row ns row = Inr ser \<Longrightarrow> map_of ser = map_of row |` set ns"
proof (induction ns arbitrary: ser)
  case Nil
  then show ?case by simp
next
  case (Cons a ns)
  from Cons.prems obtain v rest where v: "map_of row a = Some v"
    and rest: "bind_row ns row = Inr rest" and ser: "ser = (a, v) # rest"
    by (auto split: option.splits sum.splits)
  from Cons.IH [OF rest] have "map_of rest = map_of row |` set ns" .
  with v ser show ?case
    by (auto simp: restrict_map_def fun_eq_iff)
qed

lemma bind_row_total: "set ns \<subseteq> set (map fst row) \<Longrightarrow> \<exists>ser. bind_row ns row = Inr ser"
proof (induction ns)
  case Nil
  then show ?case by simp
next
  case (Cons a ns)
  then have "a \<in> fst ` set row" by simp
  then obtain v where "map_of row a = Some v"
    by (metis map_of_eq_None_iff not_Some_eq)
  moreover from Cons obtain ser where "bind_row ns row = Inr ser" by auto
  ultimately show ?case by simp
qed

lemma create_Inr:
  assumes "SearchSpace_create ps constraints dup = Inr sp"
  defines "cs \<equiv> zip [0..<length constraints] constraints"
  shows "distinct (map param_name ps)"
    and "\<forall>c \<in> set constraints. set (parameters c) \<subseteq> set (map param_name ps)"
    and "\<exists>rows. ((check (filter (\<lambda>(i, c). ready c []) cs) [] = Inr True
                    \<and> product_rows ps cs [] = Inr rows)
                 \<or> (check (filter (\<lambda>(i, c). ready c []) cs) [] = Inr False \<and> rows = []))
            \<and> exp_rep (discrete sp) = (if dup then rows else dedup [] rows)"
    and "apply_series (encode_row ps) (exp_rep (discrete sp)) = Inr (comp_rep (discrete sp))"
    and "measured sp = []" and "recommended sp = []"
proof -
  show "distinct (map param_name ps)"
    using assms(1) by (auto simp: SearchSpace_create_def Let_def split: if_splits)
  have "filter (\<lambda>n. n \<notin> set (map param_name ps)) (concat (map parameters constraints)) = []"
    using assms(1) by (auto simp: SearchSpace_create_def Let_def split: if_splits list.splits)
  then show "\<forall>c \<in> set constraints. set (parameters c) \<subseteq> set (map param_name ps)"
    by (auto simp: filter_empty_conv)
  show "\<exists>rows. ((check (filter (\<lambda>(i, c). ready c []) cs) [] = Inr True
                    \<and> product_rows ps cs [] = Inr rows)
                 \<or> (check (filter (\<lambda>(i, c). ready c []) cs) [] = Inr False \<and> rows = []))
            \<and> exp_rep (discrete sp) = (if dup then rows else dedup [] rows)"
    using assms(1) unfolding cs_def
    by (auto simp: SearchSpace_create_def Let_def split: if_splits list.splits sum.splits)
  show "apply_series (encode_row ps) (exp_rep (discrete sp)) = Inr (comp_rep (discrete sp))"
    using assms(1)
    by (auto simp: SearchSpace_create_def Let_def split: if_splits list.splits sum.splits)
  show "measured sp = []" and "recommended sp = []"
    using assms(1)
    by (auto simp: SearchSpace_create_def Let_def split: if_splits list.splits sum.splits)
qed

lemma create_rows:
  assumes "SearchSpace_create ps constraints dup = Inr sp" and "r \<in> set (exp_rep (discrete sp))"
  shows "\<exists>vs. r = zip (map param_name ps) vs \<and> list_all2 (\<lambda>p v. v \<in> set (param_values p)) ps vs"
    and "all_valid (zip [0..<length constraints] constraints) r"
proof -
  let ?cs = "zip [0..<length constraints] constraints"
  from create_Inr(3) [OF assms(1)] obtain rows where
    rows: "(check (filter (\<lambda>(i, c). ready c []) ?cs) [] = Inr True
              \<and> product_rows ps ?cs [] = Inr rows)
           \<or> (check (filter (\<lambda>(i, c). ready c []) ?cs) [] = Inr False \<and> rows = [])"
    and exp: "exp_rep (discrete sp) = (if dup then rows else dedup [] rows)"
    by blast
  from exp assms(2) have r: "r \<in> set rows" by (auto simp: set_dedup split: if_splits)
  with rows have chk: "check (filter (\<lambda>(i, c). ready c []) ?cs) [] = Inr True"
    and prod: "product_rows ps ?cs [] = Inr rows" by auto
  from product_rows_shape [OF prod r]
  show "\<exists>vs. r = zip (map param_name ps) vs \<and> list_all2 (\<lambda>p v. v \<in> set (param_values p)) ps vs"
    by simp
  have "all_valid ?cs []"
    unfolding all_valid_def
  proof (intro ballI, clarify)
    fix i c assume "(i, c) \<in> set ?cs" and "ready c []"
    then have "(i, c) \<in> set (filter (\<lambda>(i, c). ready c []) ?cs)" by simp
    with chk show "is_valid i c [] = Inr True" by (rule check_True)
  qed
  with prod show "all_valid ?cs r" using r by (rule product_rows_sound)
qed

text \<open>
  Representation parity of the builder the specification describes (section 8). In every
  search space that \<open>SearchSpace.create\<close> returns, the two representations have the
  same number of rows, and the row at each position of the
  computational representation is the encoding of the row at that position of the
  experimental one: the row holds one value of each parameter in the order of
  declaration, each value encodes with its parameter's encoding, and the computational
  row is the concatenation of these encodings in that order.
\<close>

theorem representation_parity:
  assumes "SearchSpace_create ps constraints allow_duplicates = Inr sp"
  shows "length (comp_rep (discrete sp)) = length (exp_rep (discrete sp))
     \<and> (\<forall>i<length (exp_rep (discrete sp)).
          encode_row ps (exp_rep (discrete sp) ! i) = Inr (comp_rep (discrete sp) ! i)
          \<and> (\<exists>vs. exp_rep (discrete sp) ! i = zip (map param_name ps) vs
                \<and> list_all2 (\<lambda>p v. encode p v = Inr (param_encoding p v)) ps vs
                \<and> comp_rep (discrete sp) ! i = concat (map2 param_encoding ps vs)))"
proof -
  let ?exp = "exp_rep (discrete sp)" and ?comp = "comp_rep (discrete sp)"
  from create_Inr(4) [OF assms] have enc: "apply_series (encode_row ps) ?exp = Inr ?comp" .
  from apply_series_nth [OF enc]
  have len: "length ?comp = length ?exp"
    and nth: "\<And>i. i < length ?exp \<Longrightarrow> encode_row ps (?exp ! i) = Inr (?comp ! i)" by auto
  have dist: "distinct (map param_name ps)" using assms by (rule create_Inr(1))
  have "\<exists>vs. ?exp ! i = zip (map param_name ps) vs
                \<and> list_all2 (\<lambda>p v. encode p v = Inr (param_encoding p v)) ps vs
                \<and> ?comp ! i = concat (map2 param_encoding ps vs)" if i: "i < length ?exp" for i
  proof -
    from i have "?exp ! i \<in> set ?exp" by simp
    from create_rows(1) [OF assms this] obtain vs where
      vs: "?exp ! i = zip (map param_name ps) vs"
          "list_all2 (\<lambda>p v. v \<in> set (param_values p)) ps vs" by blast
    from encode_row_zip [OF vs(2) dist] vs(1) nth [OF i]
    have "?comp ! i = concat (map2 param_encoding ps vs)" by simp
    moreover from vs(2) have "list_all2 (\<lambda>p v. encode p v = Inr (param_encoding p v)) ps vs"
      by (rule list_all2_mono) (simp add: encode_in_domain)
    ultimately show ?thesis using vs(1) by blast
  qed
  with len nth show ?thesis by blast
qed

theorem representation_parity_witness:
  "\<exists>sp. SearchSpace_create [speed, concentration] [] False = Inr sp
      \<and> exp_rep (discrete sp) ! 7 = [(''Speed'', Str ''slow''), (''Concentration'', Num 10)]
      \<and> comp_rep (discrete sp) ! 7 = [1, 10]
      \<and> length (exp_rep (discrete sp)) = 20 \<and> length (comp_rep (discrete sp)) = 20"
proof -
  have "\<exists>sp. SearchSpace_create [speed, concentration] [] False = Inr sp
      \<and> exp_rep (discrete sp) ! 7 = [(''Speed'', Str ''slow''), (''Concentration'', Num 10)]
      \<and> length (exp_rep (discrete sp)) = 20"
    by (simp add: SearchSpace_create_def speed_def concentration_def speed_values_def
        concentration_values_def newly_ready_def encode_def encoding_table_def)
  then obtain sp where sp: "SearchSpace_create [speed, concentration] [] False = Inr sp"
    and row: "exp_rep (discrete sp) ! 7 = [(''Speed'', Str ''slow''), (''Concentration'', Num 10)]"
    and len: "length (exp_rep (discrete sp)) = 20" by blast
  from representation_parity [OF sp] len
  have "length (comp_rep (discrete sp)) = 20"
    and "encode_row [speed, concentration] (exp_rep (discrete sp) ! 7)
         = Inr (comp_rep (discrete sp) ! 7)" by auto
  with row have "comp_rep (discrete sp) ! 7 = [1, 10]"
    by (simp add: speed_def concentration_def speed_values_def concentration_values_def
        encode_def encoding_table_def int_encoding_def)
  with sp row len \<open>length (comp_rep (discrete sp)) = 20\<close> show ?thesis by blast
qed

lemma check_False:
  "check cs row = Inr False \<Longrightarrow> \<exists>(i, c) \<in> set cs. is_valid i c row = Inr False"
  by (induction cs row rule: check.induct) (auto split: sum.splits if_splits)

lemma create_total:
  assumes dist: "distinct (map param_name ps)"
    and names: "\<forall>c \<in> set constraints. set (parameters c) \<subseteq> set (map param_name ps)"
    and root: "check (filter (\<lambda>(i, c). ready c []) (zip [0..<length constraints] constraints)) []
               = Inr ok"
    and prod: "ok \<Longrightarrow> \<exists>rows. product_rows ps (zip [0..<length constraints] constraints) [] = Inr rows"
  shows "\<exists>sp. SearchSpace_create ps constraints dup = Inr sp"
proof -
  let ?cs = "zip [0..<length constraints] constraints"
  obtain rows where rows: "(if ok then product_rows ps ?cs [] else Inr []) = Inr rows"
    using prod by (cases ok) auto
  define kept where "kept = (if dup then rows else dedup [] rows)"
  have "\<exists>x. encode_row ps r = Inr x" if "r \<in> set kept" for r
  proof -
    from that have r: "r \<in> set rows" by (auto simp: kept_def set_dedup split: if_splits)
    with rows have "product_rows ps ?cs [] = Inr rows" by (cases ok) auto
    from product_rows_shape [OF this r] obtain vs where
      "r = zip (map param_name ps) vs" "list_all2 (\<lambda>p v. v \<in> set (param_values p)) ps vs"
      by auto
    with encode_row_zip [OF this(2) dist] show ?thesis by simp
  qed
  then obtain encoded where enc: "apply_series (encode_row ps) kept = Inr encoded"
    using apply_series_total by blast
  have cfg: "filter (\<lambda>n. n \<notin> set (map param_name ps)) (concat (map parameters constraints)) = []"
    using names by (auto simp: filter_empty_conv)
  show ?thesis
    using dist cfg root rows enc
    by (simp add: SearchSpace_create_def Let_def kept_def)
qed

lemma create_complete:
  assumes sp: "SearchSpace_create ps constraints dup = Inr sp"
    and vs: "list_all2 (\<lambda>p v. v \<in> set (param_values p)) ps vs"
    and valid: "all_valid (zip [0..<length constraints] constraints) (zip (map param_name ps) vs)"
  shows "zip (map param_name ps) vs \<in> set (exp_rep (discrete sp))"
proof -
  let ?cs = "zip [0..<length constraints] constraints"
  let ?r = "zip (map param_name ps) vs"
  from create_Inr(3) [OF sp] obtain rows where
    rows: "(check (filter (\<lambda>(i, c). ready c []) ?cs) [] = Inr True
              \<and> product_rows ps ?cs [] = Inr rows)
           \<or> (check (filter (\<lambda>(i, c). ready c []) ?cs) [] = Inr False \<and> rows = [])"
    and exp: "exp_rep (discrete sp) = (if dup then rows else dedup [] rows)"
    by blast
  have "check (filter (\<lambda>(i, c). ready c []) ?cs) [] \<noteq> Inr False"
  proof
    assume "check (filter (\<lambda>(i, c). ready c []) ?cs) [] = Inr False"
    from check_False [OF this] obtain i c where ic: "(i, c) \<in> set ?cs" "ready c []"
      and bad: "is_valid i c [] = Inr False" by auto
    from ic(2) have "ready c ([] @ ?r)" by (rule ready_extend)
    with valid ic(1) have "is_valid i c ([] @ ?r) = Inr True" by (auto simp: all_valid_def)
    with ic(2) have "is_valid i c [] = Inr True" by (rule is_valid_restrict)
    with bad show False by simp
  qed
  with rows have prod: "product_rows ps ?cs [] = Inr rows" by auto
  from product_rows_complete [OF prod vs] valid have "?r \<in> set rows" by simp
  with exp show ?thesis by (simp add: set_dedup)
qed

lemma zip_values:
  "list_all2 (\<lambda>p v. v \<in> set (param_values p)) ps vs \<Longrightarrow> (n, v) \<in> set (zip (map param_name ps) vs) \<Longrightarrow>
     \<exists>p \<in> set ps. n = param_name p \<and> v \<in> set (param_values p)"
  by (induction ps vs rule: list_all2_induct) auto

lemma map_fst_zip_names:
  "list_all2 Q ps vs \<Longrightarrow> map fst (zip (map param_name ps) vs) = map param_name ps"
  by (induction ps vs rule: list_all2_induct) auto


text \<open>
  The values are bound by name: a validator that reads the series by label gives the
  same verdict whatever the order in which the names are declared.
\<close>

lemma is_valid_by_name:
  assumes by_name: "\<And>s s'. map_of s = map_of s' \<Longrightarrow> v s = v s'"
    and same: "set declared' = set declared"
    and present: "set declared \<subseteq> fst ` set row"
  shows "is_valid i (CustomConstraint_create declared' v) row
       = is_valid i (CustomConstraint_create declared v) row"
proof -
  from present have "set declared \<subseteq> set (map fst row)" by simp
  from bind_row_total [OF this] obtain ser where ser: "bind_row declared row = Inr ser" by blast
  from present same have "set declared' \<subseteq> set (map fst row)" by simp
  from bind_row_total [OF this] obtain ser' where ser': "bind_row declared' row = Inr ser'" by blast
  from bind_row_restrict [OF ser] bind_row_restrict [OF ser'] same
  have "map_of ser' = map_of ser" by simp
  then have "v ser' = v ser" by (rule by_name)
  with ser ser' show ?thesis by (simp add: is_valid_def CustomConstraint_create_def)
qed

section \<open>Properties of the search space of the example\<close>

lemma count_rows_none: "(\<And>r. r \<in> set rows \<Longrightarrow> f r = Inr False) \<Longrightarrow> count_rows f rows = Inr 0"
  by (induction rows) auto



lemma constraint_fields:
  "parameters constraint = [''Concentration'', ''Solvent'', ''Temperature'']"
  "validator constraint = custom_function"
  by (simp_all add: constraint_def CustomConstraint_create_def)

lemma example_values_typed:
  assumes "p \<in> set (example_parameters rdkit)" and "v \<in> set (param_values p)"
  shows "(param_name p = ''Solvent'' \<longrightarrow> (\<exists>s. v = Str s))
        \<and> (param_name p = ''Temperature'' \<or> param_name p = ''Concentration'' \<longrightarrow> (\<exists>a. v = Num a))"
  using assms
  by (auto simp: example_parameters_def solvent_def speed_def temperature_def concentration_def
      temperature_values_def concentration_values_def)

lemma is_valid_example:
  assumes rdy: "ready constraint r" and typed: "typed_row r"
  shows "\<exists>s t c. map_of r ''Solvent'' = Some (Str s) \<and> map_of r ''Temperature'' = Some (Num t)
            \<and> map_of r ''Concentration'' = Some (Num c)
            \<and> is_valid i constraint r = Inr (\<not> forbidden s t c)"
proof -
  from rdy have sub: "set (parameters constraint) \<subseteq> set (map fst r)" by (simp add: ready_def)
  from bind_row_total [OF sub] obtain ser where ser: "bind_row (parameters constraint) r = Inr ser"
    by blast
  from bind_row_restrict [OF ser] have m: "map_of ser = map_of r |` set (parameters constraint)" .
  have look: "\<exists>v. map_of r n = Some v \<and> (n, v) \<in> set r" if "n \<in> set (parameters constraint)" for n
  proof -
    from that sub have "n \<in> fst ` set r" by auto
    then obtain v where "map_of r n = Some v" by (metis map_of_eq_None_iff not_Some_eq)
    then show ?thesis by (auto dest: map_of_SomeD)
  qed
  from look [of "''Solvent''"] typed obtain s where s: "map_of r ''Solvent'' = Some (Str s)"
    by (fastforce simp: constraint_fields typed_row_def)
  from look [of "''Temperature''"] typed obtain t where t: "map_of r ''Temperature'' = Some (Num t)"
    by (fastforce simp: constraint_fields typed_row_def)
  from look [of "''Concentration''"] typed obtain c where c: "map_of r ''Concentration'' = Some (Num c)"
    by (fastforce simp: constraint_fields typed_row_def)
  from s t c m have "custom_function ser = Inr (\<not> forbidden s t c)"
    by (intro custom_function_typed) (simp_all add: constraint_fields)
  with ser have "is_valid i constraint r = Inr (\<not> forbidden s t c)"
    by (simp add: is_valid_def constraint_fields)
  with s t c show ?thesis by blast
qed

lemma example_names:
  "map param_name (example_parameters rdkit) = [''Solvent'', ''Speed'', ''Temperature'', ''Concentration'']"
  by (simp add: example_parameters_def solvent_def speed_def temperature_def concentration_def)

lemma searchspace_built: "\<exists>sp. searchspace rdkit = Inr sp"
proof -
  let ?ps = "example_parameters rdkit"
  have root: "check (filter (\<lambda>(i, c). ready c []) (zip [0..<length [constraint]] [constraint])) [] = Inr True"
    by (simp add: ready_def constraint_fields)
  have "\<exists>rows. product_rows ?ps (zip [0..<length [constraint]] [constraint]) [] = Inr rows"
  proof (rule product_rows_total [where P = typed_row])
    fix p v r
    assume "p \<in> set ?ps" and "v \<in> set (param_values p)" and "typed_row r"
    with example_values_typed [of p rdkit v] show "typed_row (r @ [(param_name p, v)])"
      by (auto simp: typed_row_def)
  next
    fix i c r
    assume "(i, c) \<in> set (zip [0..<length [constraint]] [constraint])" and "typed_row r" and "ready c r"
    then show "\<exists>b. is_valid i c r = Inr b"
      using is_valid_example [of r i] by auto
  next
    show "typed_row []" by (simp add: typed_row_def)
  qed
  then have "\<exists>sp. SearchSpace_create ?ps [constraint] False = Inr sp"
    by (intro create_total [where ok = True] root) (simp_all add: example_names constraint_fields)
  then show ?thesis
    by (simp add: searchspace_def)
qed

lemma searchspace_rows:
  assumes sp: "searchspace rdkit = Inr sp" and r: "r \<in> set (exp_rep (discrete sp))"
  shows "\<exists>s t c. map_of r ''Solvent'' = Some (Str s) \<and> map_of r ''Temperature'' = Some (Num t)
            \<and> map_of r ''Concentration'' = Some (Num c) \<and> \<not> forbidden s t c
            \<and> is_valid 0 constraint r = Inr True"
proof -
  let ?ps = "example_parameters rdkit"
  from sp have create: "SearchSpace_create ?ps [constraint] False = Inr sp"
    by (simp add: searchspace_def)
  from create_rows [OF create r] obtain vs where
    shape: "r = zip (map param_name ?ps) vs"
    and vs: "list_all2 (\<lambda>p v. v \<in> set (param_values p)) ?ps vs"
    and valid: "all_valid (zip [0..<length [constraint]] [constraint]) r" by blast
  have "map fst r = map param_name ?ps"
    using shape map_fst_zip_names [OF vs] by simp
  then have rdy: "ready constraint r"
    by (simp add: ready_def constraint_fields example_names)
  have typed: "typed_row r"
    unfolding typed_row_def
  proof (intro ballI, clarify)
    fix n v assume "(n, v) \<in> set r"
    with shape zip_values [OF vs] obtain p where
      "p \<in> set ?ps" "n = param_name p" "v \<in> set (param_values p)" by blast
    with example_values_typed [of p rdkit v]
    show "(n = ''Solvent'' \<longrightarrow> (\<exists>s. v = Str s))
          \<and> (n = ''Temperature'' \<or> n = ''Concentration'' \<longrightarrow> (\<exists>a. v = Num a))"
      by simp
  qed
  from is_valid_example [OF rdy typed, of 0] obtain s t c where
    look: "map_of r ''Solvent'' = Some (Str s)" "map_of r ''Temperature'' = Some (Num t)"
          "map_of r ''Concentration'' = Some (Num c)"
    and v: "is_valid 0 constraint r = Inr (\<not> forbidden s t c)" by blast
  from valid rdy have "is_valid 0 constraint r = Inr True" by (simp add: all_valid_def)
  with v look show ?thesis by auto
qed

lemma recommend_discrete:
  "recommend rcm n sp = Inr (rec, sp') \<Longrightarrow> discrete sp' = discrete sp"
  by (auto simp: recommend_def mark_recommended_def Let_def split: sum.splits)

lemma add_measurements_discrete: "discrete (add_measurements rec sp) = discrete sp"
  by (simp add: add_measurements_def mark_measured_def)

lemma loop_counts:
  assumes "asserts (exp_rep (discrete sp)) = Inr (0, 0, 0)"
  shows "(\<forall>counts \<in> set (fst (loop rcm k sp)). counts = (0, 0, 0))
     \<and> (\<forall>sp'. snd (loop rcm k sp) = Inr sp' \<longrightarrow>
           length (fst (loop rcm k sp)) = k \<and> discrete sp' = discrete sp)"
  using assms
proof (induction k arbitrary: sp)
  case 0
  then show ?case by simp
next
  case (Suc k)
  show ?case
  proof (cases "recommend rcm 5 sp")
    case (Inl e)
    with Suc.prems have "loop rcm (Suc k) sp = ([(0, 0, 0)], Inl e)" by simp
    then show ?thesis by simp
  next
    case (Inr res)
    obtain rec sp1 where res: "res = (rec, sp1)" by (cases res)
    define nxt where "nxt = add_measurements rec sp1"
    from Inr res have "discrete sp1 = discrete sp" by (simp add: recommend_discrete)
    then have same: "discrete nxt = discrete sp"
      by (simp add: nxt_def add_measurements_discrete)
    with Suc.prems have "asserts (exp_rep (discrete nxt)) = Inr (0, 0, 0)" by simp
    from Suc.IH [OF this]
    have ih1: "\<forall>counts \<in> set (fst (loop rcm k nxt)). counts = (0, 0, 0)"
      and ih2: "\<forall>sp'. snd (loop rcm k nxt) = Inr sp' \<longrightarrow>
           length (fst (loop rcm k nxt)) = k \<and> discrete sp' = discrete nxt"
      by blast+
    have eq: "loop rcm (Suc k) sp = ((0, 0, 0) # fst (loop rcm k nxt), snd (loop rcm k nxt))"
      using Suc.prems Inr res by (simp add: nxt_def case_prod_beta)
    have fst_eq: "fst (loop rcm (Suc k) sp) = (0, 0, 0) # fst (loop rcm k nxt)"
      and snd_eq: "snd (loop rcm (Suc k) sp) = snd (loop rcm k nxt)"
      by (simp_all only: eq fst_conv snd_conv)
    have "\<forall>counts \<in> set (fst (loop rcm (Suc k) sp)). counts = (0, 0, 0)"
    proof
      fix counts
      assume "counts \<in> set (fst (loop rcm (Suc k) sp))"
      then have "counts = (0, 0, 0) \<or> counts \<in> set (fst (loop rcm k nxt))"
        by (simp only: fst_eq set_simps insert_iff)
      with ih1 show "counts = (0, 0, 0)" by blast
    qed
    moreover have "\<forall>sp'. snd (loop rcm (Suc k) sp) = Inr sp' \<longrightarrow>
           length (fst (loop rcm (Suc k) sp)) = Suc k \<and> discrete sp' = discrete sp"
    proof (intro allI impI)
      fix sp'
      assume "snd (loop rcm (Suc k) sp) = Inr sp'"
      then have "snd (loop rcm k nxt) = Inr sp'" by (simp only: snd_eq)
      with ih2 have "length (fst (loop rcm k nxt)) = k" and "discrete sp' = discrete nxt"
        by blast+
      then show "length (fst (loop rcm (Suc k) sp)) = Suc k \<and> discrete sp' = discrete sp"
        by (simp only: fst_eq same list.size length_Cons) simp
    qed
    ultimately show ?thesis by blast
  qed
qed

lemma row0_valid:
  "is_valid 0 constraint [(''Solvent'', Str ''water''), (''Speed'', Str ''very slow''),
                  (''Temperature'', Num 100), (''Concentration'', Num 10)] = Inr True"
  by (simp add: is_valid_def constraint_fields custom_function_def attr_eq_def
      attr_gt_def attr_lt_def getattr_series_def py_and_def)

lemma row0_built:
  assumes "searchspace rdkit = Inr sp"
  shows "[(''Solvent'', Str ''water''), (''Speed'', Str ''very slow''),
          (''Temperature'', Num 100), (''Concentration'', Num 10)] \<in> set (exp_rep (discrete sp))"
proof -
  let ?ps = "example_parameters rdkit"
  let ?vs = "[Str ''water'', Str ''very slow'', Num 100, Num 10]"
  from assms have create: "SearchSpace_create ?ps [constraint] False = Inr sp"
    by (simp add: searchspace_def)
  have "(100 :: rat) \<in> set (linspace 100 200 10)"
    by (simp add: linspace_def)
  then have vs: "list_all2 (\<lambda>p v. v \<in> set (param_values p)) ?ps ?vs"
    by (simp add: example_parameters_def solvent_def speed_def temperature_def concentration_def
        dict_solvent_def speed_values_def temperature_values_def concentration_values_def)
  have "all_valid (zip [0..<length [constraint]] [constraint]) (zip (map param_name ?ps) ?vs)"
    using row0_valid by (simp add: all_valid_def example_names)
  from create_complete [OF create vs this] show ?thesis
    by (simp add: example_names)
qed


lemma marks_after_iteration:
  assumes "recommend rcm n sp = Inr (rec, sp1)"
  shows "set (recommended (add_measurements rec sp1)) \<union> set (measured (add_measurements rec sp1))
         = set (recommended sp) \<union> set (measured sp) \<union> set rec"
    and "length rec \<le> n"
proof -
  from assms obtain candidates where
    rec: "rec = take n (rcm candidates)" and sp1: "sp1 = mark_recommended rec sp"
    by (auto simp: recommend_def Let_def split: sum.splits)
  from rec show "length rec \<le> n" by simp
  from sp1 show "set (recommended (add_measurements rec sp1)) \<union> set (measured (add_measurements rec sp1))
         = set (recommended sp) \<union> set (measured sp) \<union> set rec"
    by (auto simp: add_measurements_def mark_measured_def mark_recommended_def set_dedup)
qed

lemma get_candidates_nonempty:
  assumes len: "length (comp_rep (discrete sp)) = length (exp_rep (discrete sp))"
    and r: "r \<in> set (exp_rep (discrete sp))" "r \<notin> set (recommended sp)" "r \<notin> set (measured sp)"
  shows "\<exists>candidates. get_candidates False False sp = Inr candidates"
proof -
  from r(1) obtain i where i: "i < length (exp_rep (discrete sp))" "exp_rep (discrete sp) ! i = r"
    by (auto simp: in_set_conv_nth)
  with len have "(r, comp_rep (discrete sp) ! i) \<in> set (zip (exp_rep (discrete sp)) (comp_rep (discrete sp)))"
    by (auto simp: in_set_zip)
  with r(2,3) have "filter (\<lambda>(row, x). (False \<or> row \<notin> set (recommended sp))
                      \<and> (False \<or> row \<notin> set (measured sp)))
                   (zip (exp_rep (discrete sp)) (comp_rep (discrete sp))) \<noteq> []"
    by (auto simp: filter_empty_conv)
  then show ?thesis by (simp add: get_candidates_def Let_def)
qed

lemma loop_completes:
  assumes len: "length (comp_rep (discrete sp)) = length (exp_rep (discrete sp))"
    and zero: "asserts (exp_rep (discrete sp)) = Inr (0, 0, 0)"
    and room: "card (set (recommended sp) \<union> set (measured sp)) + 5 * k
               < card (set (exp_rep (discrete sp))) + 5"
  shows "\<exists>sp'. loop rcm k sp = (replicate k (0, 0, 0), Inr sp')"
  using assms
proof (induction k arbitrary: sp)
  case 0
  then show ?case by simp
next
  case (Suc k)
  let ?marks = "set (recommended sp) \<union> set (measured sp)"
  from Suc.prems(3) have "card ?marks < card (set (exp_rep (discrete sp)))" by simp
  then have "\<not> set (exp_rep (discrete sp)) \<subseteq> ?marks"
    by (metis List.finite_set card_mono finite_UnI not_less)
  then obtain r where r: "r \<in> set (exp_rep (discrete sp))" "r \<notin> set (recommended sp)"
      "r \<notin> set (measured sp)" by auto
  from get_candidates_nonempty [OF Suc.prems(1) r]
  obtain res where res: "recommend rcm 5 sp = Inr res"
    by (auto simp: recommend_def Let_def)
  obtain rec sp1 where pair: "res = (rec, sp1)" by (cases res)
  define nxt where "nxt = add_measurements rec sp1"
  from res pair have rcm: "recommend rcm 5 sp = Inr (rec, sp1)" by simp
  from rcm have "discrete sp1 = discrete sp" by (rule recommend_discrete)
  then have same: "discrete nxt = discrete sp"
    by (simp add: nxt_def add_measurements_discrete)
  from marks_after_iteration [OF rcm]
  have marks: "set (recommended nxt) \<union> set (measured nxt) = ?marks \<union> set rec"
    and short: "length rec \<le> 5" by (simp_all add: nxt_def)
  have "card (?marks \<union> set rec) \<le> card ?marks + card (set rec)"
    by (rule card_Un_le)
  also have "card (set rec) \<le> length rec" by (rule card_length)
  finally have "card (set (recommended nxt) \<union> set (measured nxt)) \<le> card ?marks + 5"
    using short marks by simp
  with Suc.prems(3) same
  have room: "card (set (recommended nxt) \<union> set (measured nxt)) + 5 * k
               < card (set (exp_rep (discrete nxt))) + 5" by simp
  from Suc.prems(1,2) same
  have "length (comp_rep (discrete nxt)) = length (exp_rep (discrete nxt))"
    and "asserts (exp_rep (discrete nxt)) = Inr (0, 0, 0)" by simp_all
  from Suc.IH [OF this room] obtain sp' where
    ih: "loop rcm k nxt = (replicate k (0, 0, 0), Inr sp')" by blast
  have "loop rcm (Suc k) sp = (replicate (Suc k) (0, 0, 0), Inr sp')"
    using Suc.prems(2) rcm ih by (simp add: nxt_def)
  then show ?case by blast
qed

lemma example_row_built:
  assumes sp: "searchspace rdkit = Inr sp"
    and sv: "sv \<in> set speed_values" and tv: "tv \<in> set temperature_values"
  shows "[(''Solvent'', Str ''C1''), (''Speed'', sv), (''Temperature'', tv),
          (''Concentration'', Num 1)] \<in> set (exp_rep (discrete sp))"
proof -
  let ?ps = "example_parameters rdkit"
  let ?vs = "[Str ''C1'', sv, tv, Num 1]"
  let ?row = "[(''Solvent'', Str ''C1''), (''Speed'', sv), (''Temperature'', tv),
          (''Concentration'', Num 1)]"
  from sp have create: "SearchSpace_create ?ps [constraint] False = Inr sp"
    by (simp add: searchspace_def)
  have vs: "list_all2 (\<lambda>p v. v \<in> set (param_values p)) ?ps ?vs"
    using sv tv
    by (simp add: example_parameters_def solvent_def speed_def temperature_def concentration_def
        dict_solvent_def concentration_values_def)
  have "is_valid 0 constraint ?row = Inr True"
    by (simp add: is_valid_def constraint_fields custom_function_def attr_eq_def
        getattr_series_def)
  then have "all_valid (zip [0..<length [constraint]] [constraint]) (zip (map param_name ?ps) ?vs)"
    by (simp add: all_valid_def example_names)
  from create_complete [OF create vs this] show ?thesis
    by (simp add: example_names)
qed

lemma example_rows_many:
  assumes sp: "searchspace rdkit = Inr sp"
  shows "50 \<le> card (set (exp_rep (discrete sp)))"
proof -
  let ?row = "\<lambda>(sv, tv). [(''Solvent'', Str ''C1''), (''Speed'', sv), (''Temperature'', tv),
          (''Concentration'', Num 1)]"
  let ?R = "?row ` (set speed_values \<times> set temperature_values)"
  have "inj_on ?row (set speed_values \<times> set temperature_values)"
    by (auto simp: inj_on_def)
  then have "card ?R = card (set speed_values \<times> set temperature_values)"
    by (rule card_image)
  also have "\<dots> = card (set speed_values) * card (set temperature_values)"
    by (rule card_cartesian_product)
  also have "card (set speed_values) = 5"
    by (simp add: speed_values_def)
  also have "card (set temperature_values) = 10"
  proof -
    have "distinct temperature_values"
      by (simp add: temperature_values_def linspace_def distinct_map inj_on_def)
    then have "card (set temperature_values) = length temperature_values"
      by (rule distinct_card)
    then show ?thesis by (simp add: temperature_values_def linspace_def)
  qed
  finally have "card ?R = 50" by simp
  moreover have "?R \<subseteq> set (exp_rep (discrete sp))"
    using example_row_built [OF sp] by auto
  then have "card ?R \<le> card (set (exp_rep (discrete sp)))"
    by (intro card_mono) simp_all
  ultimately show ?thesis by simp
qed

text \<open>
  Claim C1. The search space of the example builds, and every row of its experimental
  representation satisfies the validator: none is one of the three forbidden
  combinations, the three counts the loop prints are 0, and they are 0 again at every
  iteration of the loop, whose steps leave the experimental representation as it was
  built. The five iterations of the example all run, whatever the recommender selects.
\<close>

theorem example_rows_satisfy_validator:
  "\<exists>sp. searchspace rdkit = Inr sp
     \<and> (\<forall>row \<in> set (exp_rep (discrete sp)).
           is_valid 0 constraint row = Inr True
           \<and> water_above_120_and_5 row = Inr False
           \<and> water_above_180_and_3 row = Inr False
           \<and> c3_below_150_and_above_3 row = Inr False)
     \<and> asserts (exp_rep (discrete sp)) = Inr (0, 0, 0)
     \<and> (\<forall>counts \<in> set (fst (loop rcm k sp)). counts = (0, 0, 0))
     \<and> (\<forall>sp'. snd (loop rcm k sp) = Inr sp' \<longrightarrow>
           length (fst (loop rcm k sp)) = k
           \<and> exp_rep (discrete sp') = exp_rep (discrete sp)
           \<and> asserts (exp_rep (discrete sp')) = Inr (0, 0, 0))
     \<and> (\<exists>sp'. loop rcm N_ITERATIONS sp = (replicate N_ITERATIONS (0, 0, 0), Inr sp'))"
proof -
  from searchspace_built obtain sp where sp: "searchspace rdkit = Inr sp" by blast
  have rows: "is_valid 0 constraint row = Inr True
           \<and> water_above_120_and_5 row = Inr False
           \<and> water_above_180_and_3 row = Inr False
           \<and> c3_below_150_and_above_3 row = Inr False" if "row \<in> set (exp_rep (discrete sp))" for row
  proof -
    from searchspace_rows [OF sp that] obtain s t c where
      look: "map_of row ''Solvent'' = Some (Str s)" "map_of row ''Temperature'' = Some (Num t)"
            "map_of row ''Concentration'' = Some (Num c)"
      and ok: "\<not> forbidden s t c" and v: "is_valid 0 constraint row = Inr True" by blast
    from counted_typed [OF look] ok v show ?thesis
      by (simp add: forbidden_def)
  qed
  then have zero: "asserts (exp_rep (discrete sp)) = Inr (0, 0, 0)"
    by (simp add: asserts_def count_rows_none)
  from loop_counts [OF zero, of rcm k]
  have printed: "\<forall>counts \<in> set (fst (loop rcm k sp)). counts = (0, 0, 0)"
    and final: "\<forall>sp'. snd (loop rcm k sp) = Inr sp' \<longrightarrow>
           length (fst (loop rcm k sp)) = k \<and> discrete sp' = discrete sp"
    by blast+
  have after: "\<forall>sp'. snd (loop rcm k sp) = Inr sp' \<longrightarrow>
           length (fst (loop rcm k sp)) = k
           \<and> exp_rep (discrete sp') = exp_rep (discrete sp)
           \<and> asserts (exp_rep (discrete sp')) = Inr (0, 0, 0)"
  proof (intro allI impI)
    fix sp'
    assume "snd (loop rcm k sp) = Inr sp'"
    with final have len: "length (fst (loop rcm k sp)) = k" and same: "discrete sp' = discrete sp"
      by blast+
    from same zero have "asserts (exp_rep (discrete sp')) = Inr (0, 0, 0)"
      by (simp only:)
    with len same show "length (fst (loop rcm k sp)) = k
           \<and> exp_rep (discrete sp') = exp_rep (discrete sp)
           \<and> asserts (exp_rep (discrete sp')) = Inr (0, 0, 0)"
      by (simp only: simp_thms)
  qed
  from rows have rows': "\<forall>row \<in> set (exp_rep (discrete sp)).
           is_valid 0 constraint row = Inr True
           \<and> water_above_120_and_5 row = Inr False
           \<and> water_above_180_and_3 row = Inr False
           \<and> c3_below_150_and_above_3 row = Inr False" by blast
  from sp have create: "SearchSpace_create (example_parameters rdkit) [constraint] False = Inr sp"
    by (simp add: searchspace_def)
  from apply_series_nth [OF create_Inr(4) [OF create]]
  have len: "length (comp_rep (discrete sp)) = length (exp_rep (discrete sp))" by simp
  from create_Inr(5,6) [OF create] example_rows_many [OF sp]
  have "card (set (recommended sp) \<union> set (measured sp)) + 5 * N_ITERATIONS
               < card (set (exp_rep (discrete sp))) + 5"
    by (simp add: N_ITERATIONS_def)
  from loop_completes [OF len zero this]
  have runs: "\<exists>sp'. loop rcm N_ITERATIONS sp = (replicate N_ITERATIONS (0, 0, 0), Inr sp')" .
  show ?thesis
    by (intro exI [of _ sp] conjI sp rows' zero printed after runs)
qed

theorem example_rows_satisfy_validator_witness:
  "\<exists>sp. searchspace (\<lambda>v. []) = Inr sp
     \<and> [(''Solvent'', Str ''water''), (''Speed'', Str ''very slow''),
         (''Temperature'', Num 100), (''Concentration'', Num 10)] \<in> set (exp_rep (discrete sp))
     \<and> water_above_120_and_5 [(''Solvent'', Str ''water''), (''Speed'', Str ''very slow''),
         (''Temperature'', Num 100), (''Concentration'', Num 10)] = Inr False
     \<and> asserts (exp_rep (discrete sp)) = Inr (0, 0, 0)
     \<and> fst (loop (map fst) 5 sp) = [(0, 0, 0), (0, 0, 0), (0, 0, 0), (0, 0, 0), (0, 0, 0)]"
proof -
  let ?row = "[(''Solvent'', Str ''water''), (''Speed'', Str ''very slow''),
         (''Temperature'', Num 100), (''Concentration'', Num 10)]"
  from example_rows_satisfy_validator [of "\<lambda>v. []" "map fst" 0]
  obtain sp where sp: "searchspace (\<lambda>v. []) = Inr sp"
    and rows: "\<forall>row \<in> set (exp_rep (discrete sp)). water_above_120_and_5 row = Inr False"
    and zero: "asserts (exp_rep (discrete sp)) = Inr (0, 0, 0)"
    and runs: "\<exists>sp'. loop (map fst) N_ITERATIONS sp = (replicate N_ITERATIONS (0, 0, 0), Inr sp')"
    by blast
  from runs have five: "fst (loop (map fst) 5 sp) = [(0, 0, 0), (0, 0, 0), (0, 0, 0), (0, 0, 0), (0, 0, 0)]"
    by (auto simp: N_ITERATIONS_def eval_nat_numeral simp del: loop.simps)
  from row0_built [OF sp] have built: "?row \<in> set (exp_rep (discrete sp))" .
  with rows have "water_above_120_and_5 ?row = Inr False" by blast
  with sp built zero five show ?thesis by blast
qed

section \<open>Properties of tolerance matching\<close>

lemma set_levels: "a \<in> set (levels vs) \<longleftrightarrow> Num a \<in> set vs"
  by (induction vs rule: levels.induct) auto

lemma match_level_cases:
  fixes p x
  defines "tol \<equiv> (case param_tolerance p of None \<Rightarrow> 0 | Some t \<Rightarrow> t)"
  defines "near \<equiv> filter (\<lambda>a. \<bar>x - a\<bar> \<le> tol) (remdups (levels (param_values p)))"
  shows "match_level p x =
           (case near of [] \<Rightarrow> Inl (NoMatchError x) | [a] \<Rightarrow> Inr a
            | _ \<Rightarrow> Inl (AmbiguousToleranceMatchError x near))"
    and "set near = {a. Num a \<in> set (param_values p) \<and> \<bar>x - a\<bar> \<le> tol}"
    and "distinct near"
proof -
  show "match_level p x =
           (case near of [] \<Rightarrow> Inl (NoMatchError x) | [a] \<Rightarrow> Inr a
            | _ \<Rightarrow> Inl (AmbiguousToleranceMatchError x near))"
    unfolding match_level_def Let_def near_def tol_def by (rule refl)
  show "set near = {a. Num a \<in> set (param_values p) \<and> \<bar>x - a\<bar> \<le> tol}"
    by (auto simp: near_def set_levels)
  show "distinct near"
    by (simp add: near_def)
qed

lemma distinct_singleton: "distinct xs \<Longrightarrow> set xs = {a} \<Longrightarrow> xs = [a]"
  by (cases xs; cases "tl xs") auto

text \<open>
  Tolerance matching as the specification describes it (sections 4.3 and 7). For the
  concentration of the example (levels 1, 2, 5 and 10, tolerance 0.4), the measured value
  1.3 matches level 1 and 3.5 is a no-match error. In general a value closer than the
  tolerance to two different levels is an \<open>AmbiguousToleranceMatchError\<close>; a value that
  matches resolves to a declared level within the tolerance that no other declared level
  is nearer than; a value within the tolerance of exactly one declared level resolves to
  that level; and a value within the tolerance of no declared level is a
  \<open>NoMatchError\<close>.
\<close>

theorem tolerance_matching:
  "match_level concentration (13 / 10) = Inr 1
   \<and> match_level concentration (7 / 2) = Inl (NoMatchError (7 / 2))
   \<and> (param_tolerance p = Some tol \<and> Num a \<in> set (param_values p) \<and> Num b \<in> set (param_values p)
        \<and> a \<noteq> b \<and> \<bar>x - a\<bar> < tol \<and> \<bar>x - b\<bar> < tol \<longrightarrow>
        (\<exists>near. a \<in> set near \<and> b \<in> set near
                \<and> match_level p x = Inl (AmbiguousToleranceMatchError x near)))
   \<and> (match_level p x = Inr a \<longrightarrow>
        Num a \<in> set (param_values p)
        \<and> \<bar>x - a\<bar> \<le> (case param_tolerance p of None \<Rightarrow> 0 | Some t \<Rightarrow> t)
        \<and> (\<forall>b. Num b \<in> set (param_values p) \<longrightarrow> \<bar>x - a\<bar> \<le> \<bar>x - b\<bar>))
   \<and> (Num c \<in> set (param_values p)
        \<and> \<bar>x - c\<bar> \<le> (case param_tolerance p of None \<Rightarrow> 0 | Some t \<Rightarrow> t)
        \<and> (\<forall>b. Num b \<in> set (param_values p)
                \<and> \<bar>x - b\<bar> \<le> (case param_tolerance p of None \<Rightarrow> 0 | Some t \<Rightarrow> t) \<longrightarrow> b = c)
        \<longrightarrow> match_level p x = Inr c)
   \<and> ((\<forall>b. Num b \<in> set (param_values p) \<longrightarrow>
            (case param_tolerance p of None \<Rightarrow> 0 | Some t \<Rightarrow> t) < \<bar>x - b\<bar>)
        \<longrightarrow> match_level p x = Inl (NoMatchError x))"
proof (intro conjI impI)
  show "match_level concentration (13 / 10) = Inr 1"
    by (simp add: match_level_def concentration_def concentration_values_def)
  show "match_level concentration (7 / 2) = Inl (NoMatchError (7 / 2))"
    by (simp add: match_level_def concentration_def concentration_values_def)
next
  assume h: "param_tolerance p = Some tol \<and> Num a \<in> set (param_values p)
      \<and> Num b \<in> set (param_values p) \<and> a \<noteq> b \<and> \<bar>x - a\<bar> < tol \<and> \<bar>x - b\<bar> < tol"
  define near where
    "near = filter (\<lambda>a. \<bar>x - a\<bar> \<le> (case param_tolerance p of None \<Rightarrow> 0 | Some t \<Rightarrow> t))
              (remdups (levels (param_values p)))"
  have m: "match_level p x =
           (case near of [] \<Rightarrow> Inl (NoMatchError x) | [a] \<Rightarrow> Inr a
            | _ \<Rightarrow> Inl (AmbiguousToleranceMatchError x near))"
    and s: "set near = {a. Num a \<in> set (param_values p)
                \<and> \<bar>x - a\<bar> \<le> (case param_tolerance p of None \<Rightarrow> 0 | Some t \<Rightarrow> t)}"
    unfolding near_def by (rule match_level_cases)+
  from h s have ab: "a \<in> set near" "b \<in> set near" by auto
  from h have "a \<noteq> b" by simp
  with ab obtain y z rest where "near = y # z # rest"
    by (cases near; cases "tl near") auto
  with m have "match_level p x = Inl (AmbiguousToleranceMatchError x near)" by simp
  with ab show "\<exists>near. a \<in> set near \<and> b \<in> set near
                \<and> match_level p x = Inl (AmbiguousToleranceMatchError x near)" by blast
next
  assume r: "match_level p x = Inr a"
  define tol where "tol = (case param_tolerance p of None \<Rightarrow> 0 | Some t \<Rightarrow> t)"
  define near where
    "near = filter (\<lambda>a. \<bar>x - a\<bar> \<le> tol) (remdups (levels (param_values p)))"
  have m: "match_level p x =
           (case near of [] \<Rightarrow> Inl (NoMatchError x) | [a] \<Rightarrow> Inr a
            | _ \<Rightarrow> Inl (AmbiguousToleranceMatchError x near))"
    and s: "set near = {a. Num a \<in> set (param_values p) \<and> \<bar>x - a\<bar> \<le> tol}"
    unfolding near_def tol_def by (rule match_level_cases)+
  from r m have near: "near = [a]" by (auto split: list.splits)
  with s have a: "Num a \<in> set (param_values p)" "\<bar>x - a\<bar> \<le> tol" by auto
  have "\<bar>x - a\<bar> \<le> \<bar>x - b\<bar>" if "Num b \<in> set (param_values p)" for b
  proof (cases "\<bar>x - b\<bar> \<le> tol")
    case True
    with that s have "b \<in> set near" by simp
    with near show ?thesis by simp
  next
    case False
    with a(2) show ?thesis by simp
  qed
  with a show "Num a \<in> set (param_values p)"
    and "\<bar>x - a\<bar> \<le> (case param_tolerance p of None \<Rightarrow> 0 | Some t \<Rightarrow> t)"
    and "\<forall>b. Num b \<in> set (param_values p) \<longrightarrow> \<bar>x - a\<bar> \<le> \<bar>x - b\<bar>"
    by (simp_all add: tol_def)
next
  assume u: "Num c \<in> set (param_values p)
      \<and> \<bar>x - c\<bar> \<le> (case param_tolerance p of None \<Rightarrow> 0 | Some t \<Rightarrow> t)
      \<and> (\<forall>b. Num b \<in> set (param_values p)
              \<and> \<bar>x - b\<bar> \<le> (case param_tolerance p of None \<Rightarrow> 0 | Some t \<Rightarrow> t) \<longrightarrow> b = c)"
  define near where
    "near = filter (\<lambda>a. \<bar>x - a\<bar> \<le> (case param_tolerance p of None \<Rightarrow> 0 | Some t \<Rightarrow> t))
              (remdups (levels (param_values p)))"
  have m: "match_level p x =
           (case near of [] \<Rightarrow> Inl (NoMatchError x) | [a] \<Rightarrow> Inr a
            | _ \<Rightarrow> Inl (AmbiguousToleranceMatchError x near))"
    and s: "set near = {a. Num a \<in> set (param_values p)
                \<and> \<bar>x - a\<bar> \<le> (case param_tolerance p of None \<Rightarrow> 0 | Some t \<Rightarrow> t)}"
    and d: "distinct near"
    unfolding near_def by (rule match_level_cases)+
  from u s have "set near = {c}" by auto
  with d have "near = [c]" by (rule distinct_singleton)
  with m show "match_level p x = Inr c" by simp
next
  assume n: "\<forall>b. Num b \<in> set (param_values p) \<longrightarrow>
      (case param_tolerance p of None \<Rightarrow> 0 | Some t \<Rightarrow> t) < \<bar>x - b\<bar>"
  define near where
    "near = filter (\<lambda>a. \<bar>x - a\<bar> \<le> (case param_tolerance p of None \<Rightarrow> 0 | Some t \<Rightarrow> t))
              (remdups (levels (param_values p)))"
  have m: "match_level p x =
           (case near of [] \<Rightarrow> Inl (NoMatchError x) | [a] \<Rightarrow> Inr a
            | _ \<Rightarrow> Inl (AmbiguousToleranceMatchError x near))"
    and s: "set near = {a. Num a \<in> set (param_values p)
                \<and> \<bar>x - a\<bar> \<le> (case param_tolerance p of None \<Rightarrow> 0 | Some t \<Rightarrow> t)}"
    unfolding near_def by (rule match_level_cases)+
  have "a \<notin> set near" for a
  proof
    assume "a \<in> set near"
    with s have "Num a \<in> set (param_values p)"
      and le: "\<bar>x - a\<bar> \<le> (case param_tolerance p of None \<Rightarrow> 0 | Some t \<Rightarrow> t)"
      by simp_all
    with n have "(case param_tolerance p of None \<Rightarrow> 0 | Some t \<Rightarrow> t) < \<bar>x - a\<bar>"
      by blast
    with le show False by simp
  qed
  then have "near = []" by (cases near) auto
  with m show "match_level p x = Inl (NoMatchError x)" by simp
qed

theorem tolerance_matching_witness:
  "(\<exists>near. 2 \<in> set near \<and> 5 \<in> set near
      \<and> match_level (concentration\<lparr>param_tolerance := Some 3\<rparr>) (7 / 2)
          = Inl (AmbiguousToleranceMatchError (7 / 2) near))
   \<and> match_level concentration (13 / 10) = Inr 1
   \<and> Num 1 \<in> set (param_values concentration)
   \<and> \<bar>13 / 10 - 1\<bar> \<le> (2 / 5 :: rat)
   \<and> match_level concentration (24 / 5) = Inr 5
   \<and> match_level (concentration\<lparr>param_tolerance := None\<rparr>) (21 / 10)
       = Inl (NoMatchError (21 / 10))"
proof -
  have "param_tolerance (concentration\<lparr>param_tolerance := Some 3\<rparr>) = Some 3
      \<and> Num 2 \<in> set (param_values (concentration\<lparr>param_tolerance := Some 3\<rparr>))
      \<and> Num 5 \<in> set (param_values (concentration\<lparr>param_tolerance := Some 3\<rparr>))
      \<and> (2 :: rat) \<noteq> 5 \<and> \<bar>7 / 2 - 2\<bar> < (3 :: rat) \<and> \<bar>7 / 2 - 5\<bar> < (3 :: rat)"
    by (simp add: concentration_def concentration_values_def)
  with tolerance_matching
      [where p = "concentration\<lparr>param_tolerance := Some 3\<rparr>" and tol = 3 and a = 2 and b = 5
         and x = "7 / 2"]
  have "\<exists>near. 2 \<in> set near \<and> 5 \<in> set near
      \<and> match_level (concentration\<lparr>param_tolerance := Some 3\<rparr>) (7 / 2)
          = Inl (AmbiguousToleranceMatchError (7 / 2) near)"
    by blast
  moreover have one: "match_level concentration (13 / 10) = Inr 1"
    using tolerance_matching by blast
  moreover from one have "Num 1 \<in> set (param_values concentration)"
    using tolerance_matching [where p = concentration and x = "13 / 10" and a = 1] by blast
  moreover have "\<bar>13 / 10 - 1\<bar> \<le> (2 / 5 :: rat)" by simp
  moreover have "match_level concentration (24 / 5) = Inr 5"
  proof -
    have "Num 5 \<in> set (param_values concentration)
        \<and> \<bar>24 / 5 - 5\<bar> \<le> (case param_tolerance concentration of None \<Rightarrow> 0 | Some t \<Rightarrow> t)
        \<and> (\<forall>b. Num b \<in> set (param_values concentration)
              \<and> \<bar>24 / 5 - b\<bar> \<le> (case param_tolerance concentration of None \<Rightarrow> 0 | Some t \<Rightarrow> t)
              \<longrightarrow> b = 5)"
      by (auto simp: concentration_def concentration_values_def)
    with tolerance_matching [where p = concentration and x = "24 / 5" and c = 5]
    show ?thesis by blast
  qed
  moreover have "match_level (concentration\<lparr>param_tolerance := None\<rparr>) (21 / 10)
      = Inl (NoMatchError (21 / 10))"
  proof -
    have "\<forall>b. Num b \<in> set (param_values (concentration\<lparr>param_tolerance := None\<rparr>)) \<longrightarrow>
        (case param_tolerance (concentration\<lparr>param_tolerance := None\<rparr>) of None \<Rightarrow> 0 | Some t \<Rightarrow> t)
          < \<bar>21 / 10 - b\<bar>"
      by (simp add: concentration_def concentration_values_def)
    with tolerance_matching
      [where p = "concentration\<lparr>param_tolerance := None\<rparr>" and x = "21 / 10"]
    show ?thesis by blast
  qed
  ultimately show ?thesis by blast
qed

section \<open>Further properties of the example, the binary target and the UUID hooks\<close>

text \<open>
  The verdict of \<open>custom_function\<close>. On a series that holds a solvent label, a
  temperature and a concentration it returns \<open>False\<close> exactly for the three rejected
  combinations. Without a solvent it raises an \<open>AttributeError\<close>; for a solvent other
  than water and C3 it returns \<open>True\<close> without reading anything else; and for water
  with a temperature that is a string it raises a \<open>TypeError\<close>.
\<close>

theorem custom_function_verdict:
  "(map_of ser ''Solvent'' = Some (Str s) \<and> map_of ser ''Temperature'' = Some (Num t)
      \<and> map_of ser ''Concentration'' = Some (Num c) \<longrightarrow>
      custom_function ser = Inr (\<not> forbidden s t c))
   \<and> (map_of ser ''Solvent'' = None \<longrightarrow> custom_function ser = Inl (AttributeError ''Solvent''))
   \<and> (map_of ser ''Solvent'' = Some (Str s) \<and> s \<noteq> ''water'' \<and> s \<noteq> ''C3'' \<longrightarrow>
        custom_function ser = Inr True)
   \<and> (map_of ser ''Solvent'' = Some (Str ''water'') \<and> map_of ser ''Temperature'' = Some (Str u) \<longrightarrow>
        custom_function ser = Inl TypeError)"
proof (intro conjI impI)
  assume "map_of ser ''Solvent'' = Some (Str s) \<and> map_of ser ''Temperature'' = Some (Num t)
      \<and> map_of ser ''Concentration'' = Some (Num c)"
  then show "custom_function ser = Inr (\<not> forbidden s t c)"
    by (intro custom_function_typed) simp_all
next
  assume "map_of ser ''Solvent'' = None"
  then show "custom_function ser = Inl (AttributeError ''Solvent'')"
    by (simp add: custom_function_def attr_eq_def getattr_series_def)
next
  assume "map_of ser ''Solvent'' = Some (Str s) \<and> s \<noteq> ''water'' \<and> s \<noteq> ''C3''"
  then show "custom_function ser = Inr True"
    by (simp add: custom_function_def attr_eq_def getattr_series_def)
next
  assume "map_of ser ''Solvent'' = Some (Str ''water'') \<and> map_of ser ''Temperature'' = Some (Str u)"
  then show "custom_function ser = Inl TypeError"
    by (simp add: custom_function_def attr_eq_def attr_gt_def getattr_series_def py_and_def)
qed

theorem custom_function_verdict_witness:
  "custom_function [(''Concentration'', Num 10), (''Solvent'', Str ''water''),
                    (''Temperature'', Num 200)] = Inr False
   \<and> custom_function [(''Concentration'', Num 1), (''Solvent'', Str ''C3''),
                      (''Temperature'', Num 100)] = Inr True
   \<and> custom_function [(''Temperature'', Num 100)] = Inl (AttributeError ''Solvent'')
   \<and> custom_function [(''Solvent'', Str ''C1'')] = Inr True
   \<and> custom_function [(''Solvent'', Str ''water''), (''Temperature'', Str ''hot'')] = Inl TypeError"
  using custom_function_verdict
      [of "[(''Concentration'', Num 10), (''Solvent'', Str ''water''), (''Temperature'', Num 200)]"
          "''water''" 200 10]
    custom_function_verdict
      [of "[(''Concentration'', Num 1), (''Solvent'', Str ''C3''), (''Temperature'', Num 100)]"
          "''C3''" 100 1]
    custom_function_verdict [of "[(''Temperature'', Num 100)]"]
    custom_function_verdict [of "[(''Solvent'', Str ''C1'')]" "''C1''"]
    custom_function_verdict
      [of "[(''Solvent'', Str ''water''), (''Temperature'', Str ''hot'')]" _ _ _ "''hot''"]
  by (simp add: forbidden_def)

text \<open>
  The three counts the loop prints are the rows the validator rejects: they are 0 for a
  table whose rows the validator accepts, and a row the validator rejects is counted at
  least once.
\<close>

lemma count_rows_single: "f r = Inr b \<Longrightarrow> count_rows f [r] = Inr (if b then 1 else 0)"
  by simp

theorem asserts_count_rejected_rows:
  "((\<forall>r \<in> set rows.
        (\<exists>s t c. map_of r ''Solvent'' = Some (Str s) \<and> map_of r ''Temperature'' = Some (Num t)
                 \<and> map_of r ''Concentration'' = Some (Num c))
        \<and> custom_function r = Inr True) \<longrightarrow>
      asserts rows = Inr (0, 0, 0))
   \<and> (map_of r ''Solvent'' = Some (Str s) \<and> map_of r ''Temperature'' = Some (Num t)
        \<and> map_of r ''Concentration'' = Some (Num c) \<and> custom_function r = Inr False \<longrightarrow>
        (\<exists>n1 n2 n3. asserts [r] = Inr (n1, n2, n3) \<and> 0 < n1 + n2 + n3))"
proof (intro conjI impI)
  assume h: "\<forall>r \<in> set rows.
        (\<exists>s t c. map_of r ''Solvent'' = Some (Str s) \<and> map_of r ''Temperature'' = Some (Num t)
                 \<and> map_of r ''Concentration'' = Some (Num c))
        \<and> custom_function r = Inr True"
  have "water_above_120_and_5 r = Inr False \<and> water_above_180_and_3 r = Inr False
        \<and> c3_below_150_and_above_3 r = Inr False" if "r \<in> set rows" for r
  proof -
    from h that obtain s t c where
      look: "map_of r ''Solvent'' = Some (Str s)" "map_of r ''Temperature'' = Some (Num t)"
            "map_of r ''Concentration'' = Some (Num c)"
      and ok: "custom_function r = Inr True" by blast
    from custom_function_typed [OF look] ok have "\<not> forbidden s t c" by simp
    with counted_typed [OF look] show ?thesis by (simp add: forbidden_def)
  qed
  then show "asserts rows = Inr (0, 0, 0)"
    by (simp add: asserts_def count_rows_none)
next
  assume h: "map_of r ''Solvent'' = Some (Str s) \<and> map_of r ''Temperature'' = Some (Num t)
        \<and> map_of r ''Concentration'' = Some (Num c) \<and> custom_function r = Inr False"
  then have look: "map_of r ''Solvent'' = Some (Str s)" "map_of r ''Temperature'' = Some (Num t)"
            "map_of r ''Concentration'' = Some (Num c)" by simp_all
  from custom_function_typed [OF look] h have bad: "forbidden s t c" by simp
  let ?b1 = "s = ''water'' \<and> t > 120 \<and> c > 5"
  let ?b2 = "s = ''water'' \<and> t > 180 \<and> c > 3"
  let ?b3 = "s = ''C3'' \<and> t < 150 \<and> c > 3"
  from counted_typed [OF look]
  have "asserts [r] = Inr (if ?b1 then 1 else 0, if ?b2 then 1 else 0, if ?b3 then 1 else 0)"
    by (simp add: asserts_def)
  moreover from bad have "0 < (if ?b1 then 1 else 0 :: nat) + (if ?b2 then 1 else 0)
      + (if ?b3 then 1 else 0)"
    by (auto simp: forbidden_def)
  ultimately show "\<exists>n1 n2 n3. asserts [r] = Inr (n1, n2, n3) \<and> 0 < n1 + n2 + n3" by blast
qed

theorem asserts_count_rejected_rows_witness:
  "asserts [[(''Solvent'', Str ''water''), (''Speed'', Str ''fast''),
             (''Temperature'', Num 100), (''Concentration'', Num 10)]] = Inr (0, 0, 0)
   \<and> (\<exists>n1 n2 n3. asserts [[(''Solvent'', Str ''water''), (''Speed'', Str ''fast''),
             (''Temperature'', Num 200), (''Concentration'', Num 10)]] = Inr (n1, n2, n3)
          \<and> 0 < n1 + n2 + n3)"
proof -
  let ?good = "[(''Solvent'', Str ''water''), (''Speed'', Str ''fast''),
             (''Temperature'', Num 100), (''Concentration'', Num 10)]"
  let ?bad = "[(''Solvent'', Str ''water''), (''Speed'', Str ''fast''),
             (''Temperature'', Num 200), (''Concentration'', Num 10)]"
  have good: "custom_function ?good = Inr True"
    by (simp add: custom_function_def attr_eq_def attr_gt_def attr_lt_def getattr_series_def
        py_and_def)
  have bad: "custom_function ?bad = Inr False"
    by (simp add: custom_function_def attr_eq_def attr_gt_def attr_lt_def getattr_series_def
        py_and_def)
  have "\<forall>r \<in> set [?good].
        (\<exists>s t c. map_of r ''Solvent'' = Some (Str s) \<and> map_of r ''Temperature'' = Some (Num t)
                 \<and> map_of r ''Concentration'' = Some (Num c))
        \<and> custom_function r = Inr True"
    using good by simp
  with asserts_count_rejected_rows [where rows = "[?good]"]
  have "asserts [?good] = Inr (0, 0, 0)" by blast
  moreover have "map_of ?bad ''Solvent'' = Some (Str ''water'')
      \<and> map_of ?bad ''Temperature'' = Some (Num 200)
      \<and> map_of ?bad ''Concentration'' = Some (Num 10) \<and> custom_function ?bad = Inr False"
    using bad by simp
  with asserts_count_rejected_rows [where r = ?bad and s = "''water''" and t = 200 and c = 10]
  have "\<exists>n1 n2 n3. asserts [?bad] = Inr (n1, n2, n3) \<and> 0 < n1 + n2 + n3" by blast
  ultimately show ?thesis by blast
qed

text \<open>
  For the target with the default values 1 and 0, \<open>transform\<close> applied again to the
  frame it has encoded succeeds and changes nothing.
\<close>

lemma default_target_binary:
  "transform_to_binary (BinaryTarget_init n None None) v = Inr y \<Longrightarrow>
     (y = 0 \<or> y = 1) \<and> transform_to_binary (BinaryTarget_init n None None) (PyInt y) = Inr y"
  by (auto simp: transform_to_binary_def BinaryTarget_init_def split: if_splits)

lemma default_target_apply:
  "apply_series (transform_to_binary (BinaryTarget_init n None None)) xs = Inr ys \<Longrightarrow>
     apply_series (transform_to_binary (BinaryTarget_init n None None)) (map PyInt ys) = Inr ys"
proof (induction xs arbitrary: ys)
  case Nil
  then show ?case by simp
next
  case (Cons x xs)
  from Cons.prems obtain y rest where
    y: "transform_to_binary (BinaryTarget_init n None None) x = Inr y"
    and rest: "apply_series (transform_to_binary (BinaryTarget_init n None None)) xs = Inr rest"
    and ys: "ys = y # rest"
    by (auto split: sum.splits)
  from default_target_binary [OF y] Cons.IH [OF rest] ys show ?case by simp
qed

theorem transform_idempotent_for_default_target:
  "transform (BinaryTarget_init n None None) data s = Inr (r, s') \<longrightarrow>
     r = data \<and> transform (BinaryTarget_init n None None) r s' = Inr (r, s')"
proof
  let ?t = "BinaryTarget_init n None None"
  assume h: "transform ?t data s = Inr (r, s')"
  then obtain col xs ys where frame: "s data = [(col, xs)]"
    and ys: "apply_series (transform_to_binary ?t) xs = Inr ys"
    and r: "r = data" and s': "s' = s(data := [(col, map PyInt ys)])"
    by (auto simp: transform_def split: list.splits sum.splits)
  from default_target_apply [OF ys]
  have "apply_series (transform_to_binary ?t) (map PyInt ys) = Inr ys" .
  with r s' show "r = data \<and> transform ?t r s' = Inr (r, s')"
    by (simp add: transform_def)
qed

theorem transform_idempotent_for_default_target_witness:
  "transform (BinaryTarget_init ''hit'' None None) 0
     ((\<lambda>r. [])(0 := [(''hit'', [PyBool True, PyInt 0])]))
     = Inr (0, (\<lambda>r. [])(0 := [(''hit'', [PyInt 1, PyInt 0])]))
   \<and> transform (BinaryTarget_init ''hit'' None None) 0
        ((\<lambda>r. [])(0 := [(''hit'', [PyInt 1, PyInt 0])]))
      = Inr (0, (\<lambda>r. [])(0 := [(''hit'', [PyInt 1, PyInt 0])]))"
proof -
  have first: "transform (BinaryTarget_init ''hit'' None None) 0
     ((\<lambda>r. [])(0 := [(''hit'', [PyBool True, PyInt 0])]))
     = Inr (0, (\<lambda>r. [])(0 := [(''hit'', [PyInt 1, PyInt 0])]))"
    by (simp add: transform_def transform_to_binary_def BinaryTarget_init_def)
  with transform_idempotent_for_default_target
    [of "''hit''" 0 "(\<lambda>r. [])(0 := [(''hit'', [PyBool True, PyInt 0])])" 0
        "(\<lambda>r. [])(0 := [(''hit'', [PyInt 1, PyInt 0])])"]
  show ?thesis by blast
qed

text \<open>
  The unstructure hook gives 36 characters, lower-case hexadecimal digits and hyphens,
  and different UUIDs give different strings.
\<close>

lemma UUID_init_UUID_str: "UUID_init (UUID_str u) = Inr u"
proof -
  have len: "length (format_032x (uint u)) = 32"
    and sub: "set (format_032x (uint u)) \<subseteq> lower_hex"
    and val: "digits_value (map (\<lambda>c. the (hexval c)) (format_032x (uint u))) = uint u"
    by (rule format_032x_uint)+
  have "int16 (format_032x (uint u)) = Inr (uint u)"
    using int16_plain [of "format_032x (uint u)"] len sub val by simp
  moreover have "uint u < 2 ^ 128"
    using uint_lt2p [of u] by simp
  ultimately show ?thesis
    using len UUID_str_cleaned [of u]
    by (simp add: UUID_init_def Let_def)
qed

theorem unstructure_hook_canonical:
  "length (unstructure_hook u) = 36
   \<and> set (unstructure_hook u) \<subseteq> lower_hex \<union> {CHR ''-''}
   \<and> (unstructure_hook u = unstructure_hook u' \<longrightarrow> u = u')"
proof (intro conjI impI)
  have len: "length (format_032x (uint u)) = 32"
    and sub: "set (format_032x (uint u)) \<subseteq> lower_hex"
    by (rule format_032x_uint)+
  from len show "length (unstructure_hook u) = 36"
    by (simp add: unstructure_hook_def UUID_str_def Let_def slice_def)
  from sub show "set (unstructure_hook u) \<subseteq> lower_hex \<union> {CHR ''-''}"
    by (auto simp: unstructure_hook_def UUID_str_def Let_def slice_def
        dest!: in_set_takeD in_set_dropD)
next
  assume "unstructure_hook u = unstructure_hook u'"
  then have "UUID_init (UUID_str u) = UUID_init (UUID_str u')"
    by (simp add: unstructure_hook_def)
  then show "u = u'" by (simp add: UUID_init_UUID_str)
qed

theorem unstructure_hook_canonical_witness:
  "unstructure_hook 255 = ''00000000-0000-0000-0000-0000000000ff''
   \<and> length (unstructure_hook 255) = 36
   \<and> unstructure_hook 255 \<noteq> unstructure_hook 254"
proof -
  have digits: "hex_digits 255 = ''ff''"
    by (simp add: hex_digits.simps digit_char_def)
  have zeros: "replicate 30 (CHR ''0'') = ''000000000000000000000000000000''"
    by code_simp
  have "format_032x (uint (255 :: UUID)) = ''000000000000000000000000000000ff''"
    by (simp add: format_032x_def zero_pad_def digits zeros)
  then have "unstructure_hook 255 = ''00000000-0000-0000-0000-0000000000ff''"
    by (simp add: unstructure_hook_def UUID_str_def slice_def)
  moreover have "(255 :: UUID) \<noteq> 254" by simp
  ultimately show ?thesis
    using unstructure_hook_canonical [of 255 254] by auto
qed

end
